theory Spec2Isabelle
  imports Main "HOL-Library.Word" "HOL-Library.Sublist"
begin

section \<open>JavaScript values\<close>

text \<open>
  The arguments of \<^verbatim>\<open>bind\<close>, \<^verbatim>\<open>send\<close> and \<^verbatim>\<open>close\<close> are dynamically typed. A value is
  \<^verbatim>\<open>undefined\<close>, \<^verbatim>\<open>null\<close>, a boolean, a number, a string, a function (named by a number)
  or a plain object, whose \<^verbatim>\<open>valueOf\<close> and \<^verbatim>\<open>toString\<close> are those of \<^verbatim>\<open>Object.prototype\<close>.
  Numbers are modelled on their integer values; strings are modelled by their UTF-8 bytes.
\<close>

datatype jsval =
    Undefined
  | Null
  | JBool bool
  | JNum int
  | JStr string
  | JFun nat
  | JObj "(string \<times> jsval) list"

fun typeof :: "jsval \<Rightarrow> string" where
  "typeof Undefined = ''undefined''"
| "typeof Null = ''object''"
| "typeof (JBool b) = ''boolean''"
| "typeof (JNum n) = ''number''"
| "typeof (JStr s) = ''string''"
| "typeof (JFun f) = ''function''"
| "typeof (JObj fields) = ''object''"

text \<open>The condition of \<^verbatim>\<open>if (v)\<close>, \<^verbatim>\<open>!v\<close> and \<^verbatim>\<open>v || w\<close>.\<close>

fun truthy :: "jsval \<Rightarrow> bool" where
  "truthy Undefined = False"
| "truthy Null = False"
| "truthy (JBool b) = b"
| "truthy (JNum n) = (n \<noteq> 0)"
| "truthy (JStr s) = (s \<noteq> [])"
| "truthy (JFun f) = True"
| "truthy (JObj fields) = True"

text \<open>Property access \<^verbatim>\<open>v.name\<close> on a value that is neither null nor undefined.\<close>

fun get :: "jsval \<Rightarrow> string \<Rightarrow> jsval" where
  "get (JObj fields) name = (case map_of fields name of None \<Rightarrow> Undefined | Some v \<Rightarrow> v)"
| "get v name = Undefined"

text \<open>The destructuring \<^verbatim>\<open>let [a, b, ...] = args\<close>: a missing position is undefined.\<close>

definition arg :: "jsval list \<Rightarrow> nat \<Rightarrow> jsval" where
  "arg args i = (if i < length args then args ! i else Undefined)"

text \<open>
  \<^verbatim>\<open>v >>> 0\<close> is ToUint32 of ToNumber of \<^verbatim>\<open>v\<close>. NaN (from undefined, a function, a plain
  object) becomes 0. The number of a string is the engine's matter: it reads decimal,
  hexadecimal, octal and binary literals, signs, fractions, exponents and white space,
  and rounds to a double. Only what is plain is written out here: the empty string is 0,
  and a string of one to fifteen decimal digits has its value, which is below
  \<open>2 ^ 53\<close> and so is its own double. For every other string the value of \<^verbatim>\<open>s >>> 0\<close> is
  \<open>engine_ToUint32 s\<close>, of which nothing is said: what is proved holds whatever it is.
\<close>

definition is_digit :: "char \<Rightarrow> bool" where
  "is_digit c = (48 \<le> (of_char c :: nat) \<and> (of_char c :: nat) \<le> 57)"

definition digit_value :: "char \<Rightarrow> int" where
  "digit_value c = int (of_char c) - 48"

definition engine_ToUint32 :: "string \<Rightarrow> 32 word" where
  "engine_ToUint32 = undefined"

definition StringToUint32 :: "string \<Rightarrow> 32 word" where
  "StringToUint32 s =
     (if list_all is_digit s \<and> length s \<le> 15
      then word_of_int (foldl (\<lambda>n c. 10 * n + digit_value c) 0 s)
      else engine_ToUint32 s)"

fun ToUint32 :: "jsval \<Rightarrow> 32 word" where
  "ToUint32 Undefined = 0"
| "ToUint32 Null = 0"
| "ToUint32 (JBool b) = (if b then 1 else 0)"
| "ToUint32 (JNum n) = word_of_int n"
| "ToUint32 (JStr s) = StringToUint32 s"
| "ToUint32 (JFun f) = 0"
| "ToUint32 (JObj fields) = 0"

text \<open>\<^verbatim>\<open>~~n\<close> is ToInt32: the value modulo \<open>2 ^ 32\<close>, read as two's complement.\<close>

definition ToInt32 :: "int \<Rightarrow> int" where
  "ToInt32 n = sint (word_of_int n :: 32 word)"

section \<open>Byte arrays\<close>

text \<open>
  A \<^verbatim>\<open>Uint8Array\<close> is a view of \<open>byteLength\<close> bytes at \<open>byteOffset\<close> into an
  \<^verbatim>\<open>ArrayBuffer\<close>, its field \<open>buffer\<close>. A \<^verbatim>\<open>Buffer\<close> is a \<^verbatim>\<open>Uint8Array\<close> whose
  \<^verbatim>\<open>slice\<close> shares the \<^verbatim>\<open>ArrayBuffer\<close>; the \<^verbatim>\<open>slice\<close> of any other \<^verbatim>\<open>Uint8Array\<close> copies.
  \<^verbatim>\<open>Buffer\<close> is the package \<^verbatim>\<open>buffer\<close> (version 5.1.0 in \<^verbatim>\<open>package.json\<close>), not part of
  the repository: \<open>Buffer_from\<close>, \<open>Buffer_alloc\<close> and \<open>Buffer_slice\<close> follow it.
\<close>

record Uint8Array =
  isBuffer :: bool
  buffer :: "char list"
  byteOffset :: nat
  byteLength :: nat

definition Buffer_from :: "string \<Rightarrow> Uint8Array" where
  "Buffer_from s = \<lparr>isBuffer = True, buffer = s, byteOffset = 0, byteLength = length s\<rparr>"

definition Buffer_alloc :: "nat \<Rightarrow> Uint8Array" where
  "Buffer_alloc n =
     \<lparr>isBuffer = True, buffer = replicate n (CHR 0x00), byteOffset = 0, byteLength = n\<rparr>"

definition Buffer_slice :: "Uint8Array \<Rightarrow> int \<Rightarrow> int \<Rightarrow> Uint8Array" where
  "Buffer_slice b start end =
     (let len = int (byteLength b);
          start1 = ToInt32 start;
          end1 = ToInt32 end;
          start2 = (if start1 < 0 then (if start1 + len < 0 then 0 else start1 + len)
                    else if start1 > len then len else start1);
          end2 = (if end1 < 0 then (if end1 + len < 0 then 0 else end1 + len)
                  else if end1 > len then len else end1);
          end3 = (if end2 < start2 then start2 else end2)
      in b\<lparr>byteOffset := byteOffset b + nat start2, byteLength := nat (end3 - start2)\<rparr>)"

definition TypedArray_slice :: "Uint8Array \<Rightarrow> int \<Rightarrow> int \<Rightarrow> Uint8Array" where
  "TypedArray_slice b start end =
     (let len = int (byteLength b);
          k = (if start < 0 then max (len + start) 0 else min start len);
          final = (if end < 0 then max (len + end) 0 else min end len);
          count = nat (max (final - k) 0)
      in \<lparr>isBuffer = False, buffer = take count (drop (byteOffset b + nat k) (buffer b)),
          byteOffset = 0, byteLength = count\<rparr>)"

definition Uint8Array_slice :: "Uint8Array \<Rightarrow> int \<Rightarrow> int \<Rightarrow> Uint8Array" where
  "Uint8Array_slice b start end =
     (if isBuffer b then Buffer_slice b start end else TypedArray_slice b start end)"

text \<open>
  The first argument of \<^verbatim>\<open>send\<close>: a value as above, a byte array, or an array
  (\<^verbatim>\<open>Array.isArray\<close>) of such.
\<close>

datatype BufferArg =
    Prim jsval
  | U8 Uint8Array
  | Arr "BufferArg list"

section \<open>Errors\<close>

text \<open>
  The error classes of the source. \<open>Failure\<close> is the error that a collaborator, the
  resolver, the socket manager or the handle, rejects a promise with (an \<^verbatim>\<open>Error\<close>
  object, named by its message).
\<close>

datatype Error =
    ERR_INVALID_ARG_TYPE string
  | ERR_MISSING_ARGS string
  | ERR_SOCKET_ALREADY_BOUND
  | ERR_SOCKET_BAD_PORT "32 word"
  | ERR_SOCKET_DGRAM_NOT_RUNNING
  | Failure string

section \<open>sliceBuffer and fixBufferList\<close>

text \<open>
  \<^verbatim>\<open>sliceBuffer\<close>: \<open>start + (length >>> 0)\<close> is an addition of numbers, it does not wrap.
\<close>

fun sliceBuffer :: "BufferArg \<Rightarrow> jsval \<Rightarrow> jsval \<Rightarrow> Error + Uint8Array" where
  "sliceBuffer (Prim (JStr s)) offset len =
     (let b = Buffer_from s;
          start = int (unat (ToUint32 offset));
          end = start + int (unat (ToUint32 len))
      in Inr (Uint8Array_slice b start end))"
| "sliceBuffer (U8 b) offset len =
     (let start = int (unat (ToUint32 offset));
          end = start + int (unat (ToUint32 len))
      in Inr (Uint8Array_slice b start end))"
| "sliceBuffer source offset len = Inl (ERR_INVALID_ARG_TYPE ''buffer'')"

text \<open>\<^verbatim>\<open>fixBufferList\<close>: \<open>None\<close> is the \<^verbatim>\<open>null\<close> returned at the first bad element.\<close>

fun fixBufferList :: "BufferArg list \<Rightarrow> Uint8Array list option" where
  "fixBufferList [] = Some []"
| "fixBufferList (Prim (JStr s) # list) =
     (case fixBufferList list of None \<Rightarrow> None | Some newlist \<Rightarrow> Some (Buffer_from s # newlist))"
| "fixBufferList (U8 b # list) =
     (case fixBufferList list of None \<Rightarrow> None | Some newlist \<Rightarrow> Some (b # newlist))"
| "fixBufferList (buf # list) = None"

definition toNodeFamily :: "int \<Rightarrow> string" where
  "toNodeFamily family = (if family = 2 then ''udp6'' else ''udp4'')"

section \<open>The socket, its tasks and what it does to its collaborators\<close>

datatype BindState = BIND_STATE_UNBOUND | BIND_STATE_BINDING | BIND_STATE_BOUND

text \<open>A handle of the socket manager (\<^verbatim>\<open>UDPSocket\<close>) is named by a number.\<close>

type_synonym UDPSocket = nat

text \<open>
  The three tasks, with the fields of their classes in the order of the constructors'
  parameters: \<^verbatim>\<open>Spawn\<close> has \<^verbatim>\<open>address\<close> and \<^verbatim>\<open>port\<close>, \<^verbatim>\<open>Send\<close> has \<^verbatim>\<open>list\<close>, \<^verbatim>\<open>port\<close>,
  \<^verbatim>\<open>address\<close> and \<^verbatim>\<open>callback\<close>. Each belongs to the one socket modelled here, so the field
  \<^verbatim>\<open>socket\<close> is left out. The flow types promise a string and a number to \<^verbatim>\<open>Spawn\<close>, but
  \<^verbatim>\<open>bind\<close> hands over whatever it was called with.
\<close>

datatype Task =
    Spawn jsval jsval
  | Send "Uint8Array list" "32 word" string "nat option"
  | Close

text \<open>
  The options of \<^verbatim>\<open>lib.UDPSocket.create\<close>: \<^verbatim>\<open>host\<close>, \<^verbatim>\<open>port\<close> (\<open>None\<close> when the field is
  left out) and \<^verbatim>\<open>addressReuse\<close>.
\<close>

record SocketOptions =
  opt_host :: "string option"
  opt_port :: "jsval option"
  opt_addressReuse :: bool

text \<open>The second argument of a \<^verbatim>\<open>message\<close> event: \<^verbatim>\<open>address\<close>, \<^verbatim>\<open>family\<close>, \<^verbatim>\<open>port\<close>, \<^verbatim>\<open>size\<close>.\<close>

record rinfo =
  rinfo_address :: string
  rinfo_family :: string
  rinfo_port :: nat
  rinfo_size :: nat

text \<open>
  The events the socket emits, \<^verbatim>\<open>"listening"\<close>, \<^verbatim>\<open>"error"\<close>, \<^verbatim>\<open>"message"\<close> and
  \<^verbatim>\<open>"close"\<close>, with what listeners receive (the task that \<^verbatim>\<open>"listening"\<close> passes is
  left out).
\<close>

datatype Event =
    EvListening
  | EvError Error
  | EvMessage "char list" rinfo
  | EvClose

text \<open>
  Every call the socket makes to something outside it, in the order of the calls: an event
  delivered to the listeners there are (\<open>Emit\<close>), and the calls to the resolver, to
  the socket manager, to the handle, to the timer and to a completion callback (with
  \<open>None\<close> for \<^verbatim>\<open>null\<close>). Listeners and callbacks are the caller's code: they are taken to
  return normally, and a call they make to the socket is a call made after the step that
  invoked them.
\<close>

datatype Action =
    Emit Event
  | Dns_resolve jsval
  | UDPSocket_create SocketOptions
  | Listen UDPSocket
  | Handle_send UDPSocket "string option" "32 word" "char list"
  | Handle_close UDPSocket
  | Set_timeout nat
  | Callback nat "Error option"

text \<open>
  An \<^verbatim>\<open>async\<close> function runs until its next \<^verbatim>\<open>await\<close> and is resumed when the awaited
  promise settles. \<open>Perform\<close> is where a call of \<^verbatim>\<open>perform\<close> stands: at one of its
  \<^verbatim>\<open>await\<close>s, with the variables it still needs, or settled (\<open>Returned\<close>, or \<open>Threw\<close>
  when the promise of \<^verbatim>\<open>perform\<close> is rejected).
\<close>

datatype Outcome = Returned | Threw Error

datatype Perform =
    Spawn_resolve jsval
  | Spawn_create
  | Send_resolve "UDPSocket option" "Uint8Array list" "32 word" "nat option"
  | Send_send UDPSocket "string option" "32 word" "Uint8Array list" "nat option"
  | Send_timeout nat
  | Close_close
  | Done Outcome

text \<open>A call of \<^verbatim>\<open>awake\<close> that stands at its \<^verbatim>\<open>await task.perform()\<close>.\<close>

record Loop =
  index :: nat
  current :: Perform

datatype DNS = lib_dns | fromNodeLookup jsval

text \<open>
  A listener registered with the \<^verbatim>\<open>EventEmitter\<close> that \<^verbatim>\<open>Socket\<close> extends: the name of the
  event, the function, and whether it was registered with \<^verbatim>\<open>once\<close>.
\<close>

record Listener =
  listener_event :: string
  listener_fn :: jsval
  listener_once :: bool

text \<open>
  The fields of the class \<^verbatim>\<open>Socket\<close> (\<open>handle\<close> is \<^verbatim>\<open>_handle\<close>, \<open>socketType\<close> is
  \<^verbatim>\<open>type\<close>), the listeners its base class holds, and after them what the program's run
  adds to them: the calls of \<^verbatim>\<open>awake\<close> that are suspended, the handles whose message pump
  \<^verbatim>\<open>listen\<close> runs, the calls made so far, and two history variables, the tasks given to
  \<^verbatim>\<open>schedule\<close> and the tasks whose \<^verbatim>\<open>perform\<close> was called, both in order.
\<close>

record Socket =
  handle :: "UDPSocket option"
  isIdle :: bool
  bindState :: BindState
  reuseAddr :: bool
  dns :: DNS
  workQueue :: "Task list"
  socketType :: jsval
  listeners :: "Listener list"
  loops :: "Loop list"
  pumps :: "UDPSocket list"
  trace :: "Action list"
  enqueued :: "Task list"
  started :: "Task list"

definition log :: "Action \<Rightarrow> Socket \<Rightarrow> Socket" where
  "log a s = s\<lparr>trace := trace s @ [a]\<rparr>"

text \<open>The methods \<^verbatim>\<open>on\<close> and \<^verbatim>\<open>once\<close> of the \<^verbatim>\<open>EventEmitter\<close>.\<close>

definition on :: "string \<Rightarrow> jsval \<Rightarrow> Socket \<Rightarrow> Socket" where
  "on name fn s =
     s\<lparr>listeners := listeners s @
        [\<lparr>listener_event = name, listener_fn = fn, listener_once = False\<rparr>]\<rparr>"

definition once :: "string \<Rightarrow> jsval \<Rightarrow> Socket \<Rightarrow> Socket" where
  "once name fn s =
     s\<lparr>listeners := listeners s @
        [\<lparr>listener_event = name, listener_fn = fn, listener_once = True\<rparr>]\<rparr>"

fun event_name :: "Event \<Rightarrow> string" where
  "event_name EvListening = ''listening''"
| "event_name (EvError error) = ''error''"
| "event_name (EvMessage data info) = ''message''"
| "event_name EvClose = ''close''"

definition has_listener :: "string \<Rightarrow> Socket \<Rightarrow> bool" where
  "has_listener name s = list_ex (\<lambda>l. listener_event l = name) (listeners s)"

text \<open>
  \<^verbatim>\<open>emit\<close> of the \<^verbatim>\<open>EventEmitter\<close> (the package \<^verbatim>\<open>events\<close>). An \<^verbatim>\<open>"error"\<close> event for which
  no listener is registered is not delivered: \<^verbatim>\<open>emit\<close> throws its error. Any other event
  is delivered to the listeners registered for it, none perhaps, and those registered with
  \<^verbatim>\<open>once\<close> are removed. \<^verbatim>\<open>emit\<close> returns the error it throws, if any, and the socket.
\<close>

definition deliver :: "Event \<Rightarrow> Socket \<Rightarrow> Socket" where
  "deliver e s =
     (log (Emit e) s)
       \<lparr>listeners :=
          filter (\<lambda>l. \<not> (listener_event l = event_name e \<and> listener_once l)) (listeners s)\<rparr>"

fun emit :: "Event \<Rightarrow> Socket \<Rightarrow> Error option \<times> Socket" where
  "emit (EvError error) s =
     (if has_listener ''error'' s then (None, deliver (EvError error) s) else (Some error, s))"
| "emit e s = (None, deliver e s)"

text \<open>
  The end of an \<^verbatim>\<open>async\<close> function at a statement that returns or throws: its promise
  is fulfilled or rejected.
\<close>

fun settled :: "Error option \<times> Socket \<Rightarrow> Perform \<times> Socket" where
  "settled (None, s) = (Done Returned, s)"
| "settled (Some error, s) = (Done (Threw error), s)"

definition Socket_new :: "jsval \<Rightarrow> jsval \<Rightarrow> Socket" where
  "Socket_new type listener =
     (let options = (type \<noteq> Null \<and> typeof type = ''object'')
      in \<lparr>handle = None,
          isIdle = True,
          bindState = BIND_STATE_UNBOUND,
          reuseAddr = (if options then truthy (get type ''reuseAddr'') else False),
          dns = (if options \<and> truthy (get type ''lookup'')
                 then fromNodeLookup (get type ''lookup'') else lib_dns),
          workQueue = [],
          socketType = (if options then get type ''type'' else type),
          listeners =
            (if typeof listener = ''function''
             then [\<lparr>listener_event = ''message'', listener_fn = listener, listener_once = False\<rparr>]
             else []),
          loops = [],
          pumps = [],
          trace = [],
          enqueued = [],
          started = []\<rparr>)"

definition healthCheck :: "Socket \<Rightarrow> Error + UDPSocket" where
  "healthCheck s =
     (case handle s of None \<Rightarrow> Inl ERR_SOCKET_DGRAM_NOT_RUNNING | Some h \<Rightarrow> Inr h)"

section \<open>The tasks\<close>

text \<open>
  The \<^verbatim>\<open>catch\<close> blocks of \<^verbatim>\<open>Spawn.perform\<close> and of \<^verbatim>\<open>Close.perform\<close>. Each ends \<^verbatim>\<open>perform\<close>
  with \<^verbatim>\<open>socket.emit("error", error)\<close>: when that throws, the promise of \<^verbatim>\<open>perform\<close> is
  rejected.
\<close>

definition Spawn_catch :: "Error \<Rightarrow> Socket \<Rightarrow> Perform \<times> Socket" where
  "Spawn_catch error s = settled (emit (EvError error) (s\<lparr>bindState := BIND_STATE_UNBOUND\<rparr>))"

definition Close_catch :: "Error \<Rightarrow> Socket \<Rightarrow> Perform \<times> Socket" where
  "Close_catch error s = settled (emit (EvError error) s)"

text \<open>
  \<open>perform task s\<close> is the call \<^verbatim>\<open>task.perform()\<close> up to its first \<^verbatim>\<open>await\<close>.
  \<^verbatim>\<open>Spawn.perform\<close> and \<^verbatim>\<open>Send.perform\<close> stop at \<^verbatim>\<open>socket.dns.resolve\<close> (\<^verbatim>\<open>Send\<close> has read
  \<^verbatim>\<open>_handle\<close> by then); \<^verbatim>\<open>Close.perform\<close> stops at \<^verbatim>\<open>handle.close()\<close>, or is over when
  \<^verbatim>\<open>_healthCheck\<close> throws into its \<^verbatim>\<open>catch\<close>.
\<close>

fun perform :: "Task \<Rightarrow> Socket \<Rightarrow> Perform \<times> Socket" where
  "perform (Spawn address port) s = (Spawn_resolve port, log (Dns_resolve address) s)"
| "perform (Send list port address callback) s =
     (Send_resolve (handle s) list port callback, log (Dns_resolve (JStr address)) s)"
| "perform Close s =
     (case healthCheck s of
        Inl error \<Rightarrow> Close_catch error s
      | Inr h \<Rightarrow> (Close_close, log (Handle_close h) (s\<lparr>handle := None\<rparr>)))"

text \<open>
  The loop \<^verbatim>\<open>for (const { buffer } of list) await _handle.send(host, port, buffer)\<close> of
  \<^verbatim>\<open>Send.perform\<close> from the buffers still to send, and what follows it, up to the next
  \<^verbatim>\<open>await\<close>. What is sent is the field \<^verbatim>\<open>buffer\<close> of the element.
\<close>

fun Send_loop ::
  "UDPSocket \<Rightarrow> string option \<Rightarrow> 32 word \<Rightarrow> Uint8Array list \<Rightarrow> nat option \<Rightarrow> Socket
     \<Rightarrow> Perform \<times> Socket" where
  "Send_loop h host port (b # list) callback s =
     (Send_send h host port list callback, log (Handle_send h host port (buffer b)) s)"
| "Send_loop h host port [] None s = (Done Returned, s)"
| "Send_loop h host port [] (Some cb) s = (Send_timeout cb, log (Set_timeout 20) s)"

text \<open>What an awaited promise settles with.\<close>

datatype Value = Addresses "string list" | Created UDPSocket | Void

datatype Reply = Fulfilled Value | Rejected Error

text \<open>\<^verbatim>\<open>record.addresses[0]\<close>: undefined (\<open>None\<close>) when there is no address.\<close>

fun first_address :: "string list \<Rightarrow> string option" where
  "first_address [] = None"
| "first_address (a # addresses) = Some a"

text \<open>
  \<open>resume p reply s\<close> continues a \<^verbatim>\<open>perform\<close> that stands at \<open>p\<close> with the outcome of
  the promise it awaits, up to its next \<^verbatim>\<open>await\<close>; \<open>None\<close> when \<open>reply\<close> is not an
  outcome of that promise. A rejection enters the \<^verbatim>\<open>catch\<close> of the \<^verbatim>\<open>try\<close> around the
  \<^verbatim>\<open>await\<close>; the \<^verbatim>\<open>await\<close> of \<^verbatim>\<open>socket.dns.resolve\<close> in \<^verbatim>\<open>Send.perform\<close> is outside its
  \<^verbatim>\<open>try\<close>, so there the rejection is the outcome of \<^verbatim>\<open>perform\<close>. In \<^verbatim>\<open>Spawn.perform\<close>
  the \<^verbatim>\<open>emit\<close> of \<^verbatim>\<open>"listening"\<close> is inside the \<^verbatim>\<open>try\<close>.
\<close>

fun resume :: "Perform \<Rightarrow> Reply \<Rightarrow> Socket \<Rightarrow> (Perform \<times> Socket) option" where
  "resume (Spawn_resolve port) (Fulfilled (Addresses addresses)) s =
     (let host = first_address addresses;
          addressReuse = reuseAddr s;
          options =
            (if port \<noteq> Undefined \<and> port \<noteq> Null \<and> port \<noteq> JNum 0
             then \<lparr>opt_host = host, opt_port = Some port, opt_addressReuse = addressReuse\<rparr>
             else \<lparr>opt_host = host, opt_port = None, opt_addressReuse = addressReuse\<rparr>)
      in Some (Spawn_create, log (UDPSocket_create options) s))"
| "resume (Spawn_resolve port) (Rejected error) s = Some (Spawn_catch error s)"
| "resume Spawn_create (Fulfilled (Created h)) s =
     (case emit EvListening (s\<lparr>handle := Some h\<rparr>) of
        (None, s1) \<Rightarrow> Some (Done Returned, (log (Listen h) s1)\<lparr>pumps := pumps s1 @ [h]\<rparr>)
      | (Some error, s1) \<Rightarrow> Some (Spawn_catch error s1))"
| "resume Spawn_create (Rejected error) s = Some (Spawn_catch error s)"
| "resume (Send_resolve h list port callback) (Fulfilled (Addresses addresses)) s =
     (let host = first_address addresses
      in case h of
           None \<Rightarrow> Some (Done Returned, s)
         | Some h \<Rightarrow> Some (Send_loop h host port list callback s))"
| "resume (Send_resolve h list port callback) (Rejected error) s = Some (Done (Threw error), s)"
| "resume (Send_send h host port list callback) (Fulfilled Void) s =
     Some (Send_loop h host port list callback s)"
| "resume (Send_send h host port list callback) (Rejected error) s =
     Some (Done Returned,
       (case callback of None \<Rightarrow> s | Some cb \<Rightarrow> log (Callback cb (Some error)) s))"
| "resume (Send_timeout cb) (Fulfilled Void) s = Some (Done Returned, log (Callback cb None) s)"
| "resume Close_close (Fulfilled Void) s = Some (Done Returned, s)"
| "resume Close_close (Rejected error) s = Some (Close_catch error s)"
| "resume p reply s = None"

section \<open>The scheduler\<close>

text \<open>
  \<open>drain i s\<close> is the loop \<^verbatim>\<open>while (index < workQueue.length)\<close> of \<^verbatim>\<open>awake\<close> from its
  test, with \<^verbatim>\<open>index\<close> at \<open>i\<close>, up to the next \<^verbatim>\<open>await\<close>: it takes \<^verbatim>\<open>workQueue[index++]\<close>
  and calls its \<^verbatim>\<open>perform\<close>, and the call of \<^verbatim>\<open>awake\<close> is suspended (\<open>Some\<close>); or the
  queue is used up, \<^verbatim>\<open>workQueue.length = 0\<close> and \<^verbatim>\<open>isIdle = true\<close> follow, and the call of
  \<^verbatim>\<open>awake\<close> is over (\<open>None\<close>).
\<close>

definition drain :: "nat \<Rightarrow> Socket \<Rightarrow> Loop option \<times> Socket" where
  "drain i s =
     (if i < length (workQueue s)
      then (let task = workQueue s ! i;
                (p, s') = perform task (s\<lparr>started := started s @ [task]\<rparr>)
            in (Some \<lparr>index = i + 1, current = p\<rparr>, s'))
      else (None, s\<lparr>workQueue := [], isIdle := True\<rparr>))"

definition awake :: "Socket \<Rightarrow> Socket" where
  "awake s =
     (if isIdle s
      then (case drain 0 (s\<lparr>isIdle := False\<rparr>) of
              (None, s') \<Rightarrow> s'
            | (Some l, s') \<Rightarrow> s'\<lparr>loops := loops s' @ [l]\<rparr>)
      else s)"

definition schedule :: "Task \<Rightarrow> Socket \<Rightarrow> Socket" where
  "schedule task s =
     (let s' = s\<lparr>workQueue := workQueue s @ [task], enqueued := enqueued s @ [task]\<rparr>
      in if isIdle s' then awake s' else s')"

text \<open>
  The suspended call number \<open>i\<close> of \<^verbatim>\<open>awake\<close> is resumed once the promise of
  \<^verbatim>\<open>task.perform()\<close> has settled: it goes on with its loop, or, when that promise is
  rejected, the \<^verbatim>\<open>await\<close> throws and the call is over with nothing after the loop done.
\<close>

definition awake_resume :: "nat \<Rightarrow> Socket \<Rightarrow> Socket" where
  "awake_resume i s =
     (if i < length (loops s)
      then (case current (loops s ! i) of
              Done Returned \<Rightarrow>
                (case drain (index (loops s ! i)) s of
                   (None, s') \<Rightarrow> s'\<lparr>loops := take i (loops s') @ drop (Suc i) (loops s')\<rparr>
                 | (Some l, s') \<Rightarrow> s'\<lparr>loops := (loops s')[i := l]\<rparr>)
            | Done (Threw error) \<Rightarrow> s\<lparr>loops := take i (loops s) @ drop (Suc i) (loops s)\<rparr>
            | _ \<Rightarrow> s)
      else s)"

text \<open>The promise that the \<^verbatim>\<open>perform\<close> of call number \<open>i\<close> of \<^verbatim>\<open>awake\<close> awaits settles.\<close>

definition settle :: "nat \<Rightarrow> Reply \<Rightarrow> Socket \<Rightarrow> Socket" where
  "settle i reply s =
     (if i < length (loops s)
      then (case resume (current (loops s ! i)) reply s of
              None \<Rightarrow> s
            | Some (p, s') \<Rightarrow> s'\<lparr>loops := (loops s')[i := (loops s' ! i)\<lparr>current := p\<rparr>]\<rparr>)
      else s)"

section \<open>The message pump\<close>

text \<open>
  \<^verbatim>\<open>listen\<close> runs from a successful \<^verbatim>\<open>Spawn\<close> on: each item of \<^verbatim>\<open>handle.messages()\<close> is
  emitted as \<^verbatim>\<open>"message"\<close>, and the end of the stream as \<^verbatim>\<open>"close"\<close>. Neither \<^verbatim>\<open>emit\<close>
  throws, as neither event is \<^verbatim>\<open>"error"\<close>.
\<close>

record From =
  from_address :: string
  from_family :: int
  from_port :: nat

definition listen_message :: "UDPSocket \<Rightarrow> char list \<Rightarrow> From \<Rightarrow> Socket \<Rightarrow> Socket" where
  "listen_message h data from s =
     (if h \<in> set (pumps s)
      then snd (emit (EvMessage data
             \<lparr>rinfo_address = from_address from, rinfo_family = toNodeFamily (from_family from),
              rinfo_port = from_port from, rinfo_size = length data\<rparr>) s)
      else s)"

definition listen_end :: "UDPSocket \<Rightarrow> Socket \<Rightarrow> Socket" where
  "listen_end h s =
     (if h \<in> set (pumps s) then (snd (emit EvClose s))\<lparr>pumps := remove1 h (pumps s)\<rparr> else s)"

section \<open>The methods bind, send and close\<close>

text \<open>
  A method returns the error it throws, if any, and the socket as it leaves it. In
  \<open>Socket_bind\<close>, \<open>port0\<close> and \<open>address0\<close> are \<^verbatim>\<open>port_\<close> and \<^verbatim>\<open>address_\<close>.
\<close>

definition Socket_bind :: "jsval list \<Rightarrow> Socket \<Rightarrow> Error option \<times> Socket" where
  "Socket_bind args s =
     (let port0 = arg args 0;
          address0 = arg args 1
      in if bindState s \<noteq> BIND_STATE_UNBOUND then (Some ERR_SOCKET_ALREADY_BOUND, s)
         else
           (let s1 = s\<lparr>bindState := BIND_STATE_BINDING\<rparr>;
                s2 = (if args \<noteq> [] \<and> typeof (last args) = ''function''
                      then once ''listening'' (last args) s1 else s1);
                options = (port0 \<noteq> Null \<and> typeof port0 = ''object'');
                address =
                  (if options
                   then (if truthy (get port0 ''address'') then get port0 ''address'' else JStr [])
                   else if typeof address0 = ''function'' then JStr [] else address0);
                exclusive = (if options then truthy (get port0 ''exclusive'') else False);
                port = (if options then get port0 ''port'' else port0);
                address1 =
                  (if \<not> truthy address
                   then (if socketType s = JStr ''udp4'' then JStr ''0.0.0.0'' else JStr ''::'')
                   else address)
            in (None, schedule (Spawn address1 port) s2)))"

text \<open>
  Lines 136 to 154 of \<^verbatim>\<open>send\<close>: the list of buffers, or the error thrown.
\<close>

fun buffer_list :: "BufferArg \<Rightarrow> Error + Uint8Array list" where
  "buffer_list (Arr buffers) =
     (case fixBufferList buffers of
        None \<Rightarrow> Inl (ERR_INVALID_ARG_TYPE ''buffer list arguments'')
      | Some list \<Rightarrow> Inr list)"
| "buffer_list (Prim (JStr s)) = Inr [Buffer_from s]"
| "buffer_list (U8 b) = Inr [b]"
| "buffer_list (Prim v) = Inl (ERR_INVALID_ARG_TYPE ''buffer'')"

text \<open>
  Lines 125 to 154 of \<^verbatim>\<open>send\<close>: which arguments are \<^verbatim>\<open>port\<close>, \<^verbatim>\<open>address\<close> and \<^verbatim>\<open>callback\<close>,
  and the list of buffers; or the error thrown. \<open>sliced args\<close> is the condition
  \<^verbatim>\<open>address || (port && typeof port !== "function")\<close>.
\<close>

definition sliced :: "jsval list \<Rightarrow> bool" where
  "sliced args = (truthy (arg args 3) \<or> (truthy (arg args 2) \<and> typeof (arg args 2) \<noteq> ''function''))"

definition send_arguments ::
  "BufferArg \<Rightarrow> jsval list \<Rightarrow> Error + (Uint8Array list \<times> jsval \<times> jsval \<times> jsval)" where
  "send_arguments buf args =
     (let offset = arg args 0; len = arg args 1; port = arg args 2;
          address = arg args 3; callback = arg args 4
      in if sliced args
         then (case sliceBuffer buf offset len of
                 Inl error \<Rightarrow> Inl error
               | Inr b \<Rightarrow>
                   (case buffer_list (U8 b) of
                      Inl error \<Rightarrow> Inl error
                    | Inr list \<Rightarrow> Inr (list, port, address, callback)))
         else (case buffer_list buf of
                 Inl error \<Rightarrow> Inl error
               | Inr list \<Rightarrow> Inr (list, offset, len, port)))"

text \<open>
  The value of \<^verbatim>\<open>address || (this.type === "udp4" ? "127.0.0.1" : "::1")\<close> where \<^verbatim>\<open>address\<close>
  is a string or falsy, which line 166 has made sure of.
\<close>

fun send_host :: "jsval \<Rightarrow> Socket \<Rightarrow> string" where
  "send_host (JStr a) s =
     (if a \<noteq> [] then a else if socketType s = JStr ''udp4'' then ''127.0.0.1'' else ''::1'')"
| "send_host v s = (if socketType s = JStr ''udp4'' then ''127.0.0.1'' else ''::1'')"

fun send_callback :: "jsval \<Rightarrow> nat option" where
  "send_callback (JFun f) = Some f"
| "send_callback v = None"

definition Socket_send :: "BufferArg \<Rightarrow> jsval list \<Rightarrow> Socket \<Rightarrow> Error option \<times> Socket" where
  "Socket_send buf args s =
     (case send_arguments buf args of
        Inl error \<Rightarrow> (Some error, s)
      | Inr (list, port0, address0, callback0) \<Rightarrow>
          (let port = ToUint32 port0
           in if port = 0 \<or> port > 65535 then (Some (ERR_SOCKET_BAD_PORT port), s)
              else
                (let callback1 = (if typeof callback0 \<noteq> ''function'' then Undefined else callback0)
                 in if typeof address0 \<noteq> ''function'' \<and> truthy address0 \<and> typeof address0 \<noteq> ''string''
                    then (Some (ERR_INVALID_ARG_TYPE ''address''), s)
                    else
                      (let callback = (if typeof address0 = ''function'' then address0 else callback1);
                           address = (if typeof address0 = ''function'' then Undefined else address0);
                           (thrown, s1) =
                             (if bindState s = BIND_STATE_UNBOUND
                              then Socket_bind [JObj [(''port'', JNum 0), (''exclusive'', JBool True)], Null] s
                              else (None, s))
                       in case thrown of
                            Some error \<Rightarrow> (Some error, s1)
                          | None \<Rightarrow>
                              (let list1 = (if list = [] then [Buffer_alloc 0] else list);
                                   host = send_host address s1
                               in (None, schedule (Send list1 port host (send_callback callback)) s1))))))"

definition Socket_close :: "jsval \<Rightarrow> Socket \<Rightarrow> Socket" where
  "Socket_close callback s =
     schedule Close (if typeof callback = ''function'' then on ''close'' callback s else s)"

section \<open>Runs of a socket\<close>

text \<open>
  What happens to a socket, one thing at a time: a caller calls a method, \<^verbatim>\<open>on\<close> and
  \<^verbatim>\<open>once\<close> of the base class included (an error thrown goes to the caller), a promise
  awaited by a task settles, a suspended \<^verbatim>\<open>awake\<close> is resumed, a datagram arrives, the
  stream of datagrams ends. A run is any sequence of these from a new socket.
\<close>

datatype Input =
    Call_bind "jsval list"
  | Call_send BufferArg "jsval list"
  | Call_close jsval
  | Call_on string jsval
  | Call_once string jsval
  | Settled nat Reply
  | Awake_resumed nat
  | Datagram UDPSocket "char list" From
  | Datagrams_end UDPSocket

fun step :: "Socket \<Rightarrow> Input \<Rightarrow> Socket" where
  "step s (Call_bind args) = snd (Socket_bind args s)"
| "step s (Call_send buf args) = snd (Socket_send buf args s)"
| "step s (Call_close callback) = Socket_close callback s"
| "step s (Call_on name fn) = on name fn s"
| "step s (Call_once name fn) = once name fn s"
| "step s (Settled i reply) = settle i reply s"
| "step s (Awake_resumed i) = awake_resume i s"
| "step s (Datagram h data from) = listen_message h data from s"
| "step s (Datagrams_end h) = listen_end h s"

definition run :: "Socket \<Rightarrow> Input list \<Rightarrow> Socket" where
  "run s inputs = foldl step s inputs"

section \<open>The invariant of the scheduler\<close>

text \<open>
  At most one call of \<^verbatim>\<open>awake\<close> is suspended. An idle socket has none, an empty queue, and
  has started every task it was given. While a call of \<^verbatim>\<open>awake\<close> is suspended the socket
  is not idle, and the tasks given to \<^verbatim>\<open>schedule\<close> are those started, followed by the queue
  from that call's \<^verbatim>\<open>index\<close> on. The tasks started are always an initial part of the tasks
  given to \<^verbatim>\<open>schedule\<close>.
\<close>

definition sched_inv :: "Socket \<Rightarrow> bool" where
  "sched_inv s \<longleftrightarrow>
     length (loops s) \<le> 1 \<and>
     (isIdle s \<longrightarrow> loops s = [] \<and> workQueue s = [] \<and> started s = enqueued s) \<and>
     (\<forall>l \<in> set (loops s). \<not> isIdle s \<and> index l \<le> length (workQueue s) \<and>
        enqueued s = started s @ drop (index l) (workQueue s)) \<and>
     prefix (started s) (enqueued s)"

section \<open>The invariant of the bind state\<close>

text \<open>
  \<open>binds_ahead\<close> counts the \<^verbatim>\<open>Spawn\<close> tasks that are being performed or that a suspended
  \<^verbatim>\<open>awake\<close> will still reach; \<open>listened\<close> says that a \<^verbatim>\<open>Spawn\<close> has succeeded, which is
  when \<^verbatim>\<open>"listening"\<close> is emitted. The state is never \<^verbatim>\<open>BIND_STATE_BOUND\<close>; at most one
  \<^verbatim>\<open>Spawn\<close> is ahead, and none on an unbound socket; once a \<^verbatim>\<open>Spawn\<close> has succeeded none is
  ahead and the state is \<^verbatim>\<open>BIND_STATE_BINDING\<close>; a handle is there only after a \<^verbatim>\<open>Spawn\<close> has
  succeeded.
\<close>

fun is_Spawn :: "Task \<Rightarrow> bool" where
  "is_Spawn (Spawn a p) = True"
| "is_Spawn task = False"

fun spawning :: "Perform \<Rightarrow> bool" where
  "spawning (Spawn_resolve p) = True"
| "spawning Spawn_create = True"
| "spawning p = False"

definition binds_ahead :: "Socket \<Rightarrow> nat" where
  "binds_ahead s =
     (\<Sum>l\<leftarrow>loops s. (if spawning (current l) then 1 else 0) +
        length (filter is_Spawn (drop (index l) (workQueue s))))"

definition listened :: "Socket \<Rightarrow> bool" where
  "listened s \<longleftrightarrow> Emit EvListening \<in> set (trace s)"

definition bind_inv :: "Socket \<Rightarrow> bool" where
  "bind_inv s \<longleftrightarrow>
     bindState s \<noteq> BIND_STATE_BOUND \<and>
     binds_ahead s \<le> 1 \<and>
     (bindState s = BIND_STATE_UNBOUND \<longrightarrow> binds_ahead s = 0) \<and>
     (listened s \<longrightarrow> binds_ahead s = 0 \<and> bindState s = BIND_STATE_BINDING) \<and>
     (handle s \<noteq> None \<longrightarrow> listened s)"

section \<open>What the statements speak of\<close>

text \<open>
  A buffer argument that \<^verbatim>\<open>send\<close> accepts in some shape of call: a string, a byte array,
  or an array of strings and byte arrays.
\<close>

fun string_or_bytes :: "BufferArg \<Rightarrow> bool" where
  "string_or_bytes (Prim (JStr s)) = True"
| "string_or_bytes (U8 b) = True"
| "string_or_bytes buf = False"

fun valid_buffer :: "BufferArg \<Rightarrow> bool" where
  "valid_buffer (Arr buffers) = list_all string_or_bytes buffers"
| "valid_buffer buf = string_or_bytes buf"


text \<open>The socket that \<^verbatim>\<open>createSocket("udp4")\<close> returns.\<close>

definition new_udp4 :: Socket where
  "new_udp4 = Socket_new (JStr ''udp4'') Undefined"


definition bound_socket :: Socket where
  "bound_socket = run new_udp4
     [Call_bind [JNum 8000], Settled 0 (Fulfilled (Addresses [''0.0.0.0''])),
      Settled 0 (Fulfilled (Created 1)), Awake_resumed 0]"

definition closed_socket :: Socket where
  "closed_socket = run bound_socket
     [Call_close Undefined, Settled 0 (Fulfilled Void), Awake_resumed 0]"

definition busy_socket :: Socket where
  "busy_socket = run new_udp4
     [Call_bind [JNum 8000], Call_send (Prim (JStr ''x'')) [JNum 9000], Call_close Undefined]"


text \<open>
  A socket on which \<^verbatim>\<open>on("error", f)\<close> was called first: after \<^verbatim>\<open>bind(8000)\<close> alone, and
  after the same three calls.
\<close>

definition heard_udp4 :: Socket where
  "heard_udp4 = run new_udp4 [Call_on ''error'' (JFun 0)]"

definition heard_binding_socket :: Socket where
  "heard_binding_socket = run heard_udp4 [Call_bind [JNum 8000]]"

definition heard_busy_socket :: Socket where
  "heard_busy_socket = run heard_udp4
     [Call_bind [JNum 8000], Call_send (Prim (JStr ''x'')) [JNum 9000], Call_close Undefined]"

text \<open>The number of \<^verbatim>\<open>"close"\<close> events emitted so far.\<close>

definition closes :: "Socket \<Rightarrow> nat" where
  "closes s = length (filter (\<lambda>a. a = Emit EvClose) (trace s))"

text \<open>
  A \<^verbatim>\<open>perform\<close> that stands at \<open>p\<close> is resumed with the outcomes of the promises it
  awaits, one after the other.
\<close>

fun resumes :: "Perform \<times> Socket \<Rightarrow> Reply list \<Rightarrow> (Perform \<times> Socket) option" where
  "resumes ps [] = Some ps"
| "resumes (p, s) (reply # replies) =
     (case resume p reply s of None \<Rightarrow> None | Some ps \<Rightarrow> resumes ps replies)"

text \<open>
  The closed socket after \<^verbatim>\<open>send("x", 8000, "unresolvable.invalid", callback)\<close>, when the
  resolver has rejected the address.
\<close>

definition stuck_socket :: Socket where
  "stuck_socket = run closed_socket
     [Call_send (Prim (JStr ''x'')) [JNum 8000, JStr ''unresolvable.invalid'', JFun 1],
      Settled 0 (Rejected (Failure ''ENOTFOUND''))]"



text \<open>
  The bound socket after \<^verbatim>\<open>send("x", 9000)\<close> and then \<^verbatim>\<open>close()\<close>, both called before any
  promise has settled: the \<^verbatim>\<open>Send\<close> is being performed, the \<^verbatim>\<open>Close\<close> waits in the queue,
  and the handle is still there. Then the same socket after
  \<^verbatim>\<open>send(["a", "b"], 9000, "example.org", callback)\<close>, when every promise awaited has been
  fulfilled and \<^verbatim>\<open>awake\<close> has run to its end.
\<close>

definition closing_socket :: Socket where
  "closing_socket = run bound_socket
     [Call_send (Prim (JStr ''x'')) [JNum 9000], Call_close Undefined]"

definition raced_socket :: Socket where
  "raced_socket = run closing_socket
     [Call_send (Arr [Prim (JStr ''a''), Prim (JStr ''b'')])
        [JNum 9000, JStr ''example.org'', JFun 7],
      Settled 0 (Fulfilled (Addresses [''127.0.0.1''])), Settled 0 (Fulfilled Void),
      Awake_resumed 0,
      Settled 0 (Fulfilled Void),
      Awake_resumed 0,
      Settled 0 (Fulfilled (Addresses [''93.184.216.34''])),
      Awake_resumed 0]"

section \<open>What the operations leave unchanged\<close>

lemma log_fields [simp]:
  "handle (log a s) = handle s" "isIdle (log a s) = isIdle s"
  "bindState (log a s) = bindState s" "reuseAddr (log a s) = reuseAddr s"
  "workQueue (log a s) = workQueue s" "socketType (log a s) = socketType s"
  "listeners (log a s) = listeners s" "loops (log a s) = loops s"
  "pumps (log a s) = pumps s" "enqueued (log a s) = enqueued s"
  "started (log a s) = started s" "trace (log a s) = trace s @ [a]"
  by (simp_all add: log_def)

lemma on_fields [simp]:
  "handle (on name fn s) = handle s" "isIdle (on name fn s) = isIdle s"
  "bindState (on name fn s) = bindState s" "reuseAddr (on name fn s) = reuseAddr s"
  "workQueue (on name fn s) = workQueue s" "socketType (on name fn s) = socketType s"
  "loops (on name fn s) = loops s" "pumps (on name fn s) = pumps s"
  "enqueued (on name fn s) = enqueued s" "started (on name fn s) = started s"
  "trace (on name fn s) = trace s"
  by (simp_all add: on_def)

lemma once_fields [simp]:
  "handle (once name fn s) = handle s" "isIdle (once name fn s) = isIdle s"
  "bindState (once name fn s) = bindState s" "reuseAddr (once name fn s) = reuseAddr s"
  "workQueue (once name fn s) = workQueue s" "socketType (once name fn s) = socketType s"
  "loops (once name fn s) = loops s" "pumps (once name fn s) = pumps s"
  "enqueued (once name fn s) = enqueued s" "started (once name fn s) = started s"
  "trace (once name fn s) = trace s"
  by (simp_all add: once_def)

lemma deliver_fields [simp]:
  "handle (deliver e s) = handle s" "isIdle (deliver e s) = isIdle s"
  "bindState (deliver e s) = bindState s" "reuseAddr (deliver e s) = reuseAddr s"
  "workQueue (deliver e s) = workQueue s" "socketType (deliver e s) = socketType s"
  "loops (deliver e s) = loops s" "pumps (deliver e s) = pumps s"
  "enqueued (deliver e s) = enqueued s" "started (deliver e s) = started s"
  "trace (deliver e s) = trace s @ [Emit e]"
  by (simp_all add: deliver_def)

lemma emit_cases:
  obtains (delivered) "emit e s = (None, deliver e s)"
  | (thrown) error where "e = EvError error" and "\<not> has_listener ''error'' s"
      and "emit e s = (Some error, s)"
proof (cases e)
  case (EvError error)
  then show ?thesis
    by (cases "has_listener ''error'' s") (simp_all add: delivered thrown)
qed (simp_all add: delivered)

lemma emit_not_error:
  "event_name e \<noteq> ''error'' \<Longrightarrow> emit e s = (None, deliver e s)"
  by (cases e) simp_all

lemma emit_frame:
  "emit e s = (thrown, s') \<Longrightarrow>
     handle s' = handle s \<and> isIdle s' = isIdle s \<and> bindState s' = bindState s \<and>
     workQueue s' = workQueue s \<and> loops s' = loops s \<and> enqueued s' = enqueued s \<and>
     started s' = started s \<and> socketType s' = socketType s \<and> pumps s' = pumps s \<and>
     reuseAddr s' = reuseAddr s"
  by (cases e s rule: emit_cases) auto

lemma settled_emit:
  "settled (emit e s) = (p, s') \<Longrightarrow>
     (p = Done Returned \<and> s' = deliver e s) \<or> (\<exists>error. p = Done (Threw error) \<and> s' = s)"
  by (cases e s rule: emit_cases) auto

lemma Spawn_catch_frame:
  "Spawn_catch error s = (p, s') \<Longrightarrow>
     (\<exists>outcome. p = Done outcome) \<and> handle s' = handle s \<and> isIdle s' = isIdle s \<and>
     bindState s' = BIND_STATE_UNBOUND \<and>
     workQueue s' = workQueue s \<and> loops s' = loops s \<and> enqueued s' = enqueued s \<and>
     started s' = started s \<and> socketType s' = socketType s \<and> pumps s' = pumps s \<and>
     reuseAddr s' = reuseAddr s"
  unfolding Spawn_catch_def by (drule settled_emit) auto

lemma Close_catch_frame:
  "Close_catch error s = (p, s') \<Longrightarrow>
     (\<exists>outcome. p = Done outcome) \<and> handle s' = handle s \<and> isIdle s' = isIdle s \<and>
     bindState s' = bindState s \<and>
     workQueue s' = workQueue s \<and> loops s' = loops s \<and> enqueued s' = enqueued s \<and>
     started s' = started s \<and> socketType s' = socketType s \<and> pumps s' = pumps s \<and>
     reuseAddr s' = reuseAddr s"
  unfolding Close_catch_def by (drule settled_emit) auto

lemma perform_frame:
  "perform task s = (p, s') \<Longrightarrow>
     isIdle s' = isIdle s \<and> bindState s' = bindState s \<and> workQueue s' = workQueue s \<and>
     loops s' = loops s \<and> enqueued s' = enqueued s \<and> started s' = started s \<and>
     socketType s' = socketType s \<and> pumps s' = pumps s \<and> reuseAddr s' = reuseAddr s"
  by (cases task) (auto simp: healthCheck_def split: option.splits dest: Close_catch_frame)

lemma Send_loop_frame:
  "Send_loop h host port list callback s = (p, s') \<Longrightarrow>
     isIdle s' = isIdle s \<and> bindState s' = bindState s \<and> workQueue s' = workQueue s \<and>
     loops s' = loops s \<and> enqueued s' = enqueued s \<and> started s' = started s \<and>
     socketType s' = socketType s \<and> pumps s' = pumps s \<and> reuseAddr s' = reuseAddr s \<and>
     handle s' = handle s"
  by (induction h host port list callback s rule: Send_loop.induct) (auto simp: log_def)

lemma resume_frame:
  "resume p reply s = Some (p', s') \<Longrightarrow>
     isIdle s' = isIdle s \<and> workQueue s' = workQueue s \<and>
     loops s' = loops s \<and> enqueued s' = enqueued s \<and> started s' = started s \<and>
     socketType s' = socketType s \<and> reuseAddr s' = reuseAddr s"
  by (induction p reply s rule: resume.induct)
     (auto simp: Let_def emit_not_error split: option.splits
        dest: Send_loop_frame Spawn_catch_frame Close_catch_frame)

lemma sched_inv_new: "sched_inv (Socket_new type listener)"
  by (simp add: sched_inv_def Socket_new_def Let_def)

lemma sched_inv_schedule:
  assumes "sched_inv s"
  shows "sched_inv (schedule task s)"
proof (cases "isIdle s")
  case True
  obtain p s' where p: "perform task
      (s\<lparr>workQueue := [task], enqueued := enqueued s @ [task], isIdle := False,
         started := started s @ [task]\<rparr>) = (p, s')"
    by (cases "perform task
      (s\<lparr>workQueue := [task], enqueued := enqueued s @ [task], isIdle := False,
         started := started s @ [task]\<rparr>)") 
  with True assms show ?thesis
    using perform_frame [OF p]
    by (simp add: sched_inv_def schedule_def awake_def drain_def Let_def)
next
  case False
  with assms show ?thesis
    by (auto simp: sched_inv_def schedule_def Let_def)
qed

lemma sched_inv_settle:
  assumes "sched_inv s"
  shows "sched_inv (settle i reply s)"
proof (cases "i < length (loops s)")
  case False
  then show ?thesis using assms by (simp add: settle_def)
next
  case True
  show ?thesis
  proof (cases "resume (current (loops s ! i)) reply s")
    case None
    then show ?thesis using assms by (simp add: settle_def)
  next
    case (Some ps)
    obtain p s' where ps: "ps = (p, s')" by (cases ps)
    obtain l where l: "loops s = [l]" and i0: "i = 0"
      using True assms by (cases "loops s") (auto simp: sched_inv_def)
    from resume_frame [OF Some [unfolded ps]] assms Some ps i0 l show ?thesis
      by (simp add: sched_inv_def settle_def)
  qed
qed

lemma sched_inv_awake_resume:
  assumes "sched_inv s"
  shows "sched_inv (awake_resume i s)"
proof (cases "i < length (loops s)")
  case False
  then show ?thesis using assms by (simp add: awake_resume_def)
next
  case True
  then obtain l where l: "loops s = [l]" and i0: "i = 0"
    using assms by (cases "loops s") (auto simp: sched_inv_def)
  show ?thesis
  proof (cases "current l")
    case (Done outcome)
    show ?thesis
    proof (cases outcome)
      case (Threw error)
      with Done l i0 assms show ?thesis
        by (simp add: awake_resume_def sched_inv_def)
    next
      case Returned
      show ?thesis
      proof (cases "index l < length (workQueue s)")
        case False
        with Returned Done l i0 assms show ?thesis
          by (simp add: awake_resume_def sched_inv_def drain_def)
      next
        case less: True
        obtain p s' where p: "perform (workQueue s ! index l)
            (s\<lparr>started := started s @ [workQueue s ! index l]\<rparr>) = (p, s')"
          by (cases "perform (workQueue s ! index l)
            (s\<lparr>started := started s @ [workQueue s ! index l]\<rparr>)")
        have "drop (index l) (workQueue s) =
            workQueue s ! index l # drop (Suc (index l)) (workQueue s)"
          using less by (simp add: Cons_nth_drop_Suc)
        with perform_frame [OF p] less Returned Done l i0 assms p show ?thesis
          by (simp add: awake_resume_def sched_inv_def drain_def Let_def)
      qed
    qed
  qed (use l i0 assms in \<open>simp_all add: awake_resume_def\<close>)
qed

lemma sched_inv_log [simp]: "sched_inv (log a s) = sched_inv s"
  by (simp add: sched_inv_def log_def)

lemma sched_inv_listeners [simp]: "sched_inv (s\<lparr>listeners := ls\<rparr>) = sched_inv s"
  by (simp add: sched_inv_def)

lemma sched_inv_on [simp]: "sched_inv (on name fn s) = sched_inv s"
  by (simp add: on_def)

lemma sched_inv_once [simp]: "sched_inv (once name fn s) = sched_inv s"
  by (simp add: once_def)

lemma sched_inv_deliver [simp]: "sched_inv (deliver e s) = sched_inv s"
  by (simp add: deliver_def)

lemma sched_inv_emit [simp]: "sched_inv (snd (emit e s)) = sched_inv s"
  by (cases e s rule: emit_cases) simp_all

lemma sched_inv_bindState [simp]: "sched_inv (s\<lparr>bindState := b\<rparr>) = sched_inv s"
  by (simp add: sched_inv_def)

lemma sched_inv_pumps [simp]: "sched_inv (s\<lparr>pumps := b\<rparr>) = sched_inv s"
  by (simp add: sched_inv_def)

lemma sched_inv_bind: "sched_inv s \<Longrightarrow> sched_inv (snd (Socket_bind args s))"
  by (simp add: Socket_bind_def Let_def sched_inv_schedule)

lemma drain_frame:
  "drain i s = (lo, s') \<Longrightarrow>
     bindState s' = bindState s \<and> socketType s' = socketType s \<and>
     reuseAddr s' = reuseAddr s \<and> pumps s' = pumps s \<and> enqueued s' = enqueued s \<and>
     loops s' = loops s"
  by (auto simp: drain_def Let_def split: prod.splits if_splits dest: perform_frame)

lemma awake_frame:
  "bindState (awake s) = bindState s \<and> socketType (awake s) = socketType s \<and>
   reuseAddr (awake s) = reuseAddr s \<and> pumps (awake s) = pumps s \<and>
   enqueued (awake s) = enqueued s"
  by (auto simp: awake_def split: prod.splits option.splits dest: drain_frame)

lemma schedule_frame:
  "bindState (schedule task s) = bindState s \<and> socketType (schedule task s) = socketType s \<and>
   reuseAddr (schedule task s) = reuseAddr s \<and> pumps (schedule task s) = pumps s \<and>
   enqueued (schedule task s) = enqueued s @ [task]"
  by (simp add: schedule_def Let_def awake_frame)

lemma Socket_bind_unbound:
  "bindState s = BIND_STATE_UNBOUND \<Longrightarrow> fst (Socket_bind args s) = None"
  by (simp add: Socket_bind_def Let_def)

lemma Socket_bind_socketType: "socketType (snd (Socket_bind args s)) = socketType s"
  by (simp add: Socket_bind_def Let_def schedule_frame)

lemma send_host_socketType: "socketType s' = socketType s \<Longrightarrow> send_host a s' = send_host a s"
  by (cases a) simp_all

lemma Socket_send_sent:
  assumes "send_arguments buf args = Inr (list, port0, address0, callback0)"
    and "ToUint32 port0 \<noteq> 0" and "\<not> 65535 < ToUint32 port0"
    and "typeof address0 = ''function'' \<or> \<not> truthy address0 \<or> typeof address0 = ''string''"
  shows "Socket_send buf args s =
     (None, schedule
        (Send (if list = [] then [Buffer_alloc 0] else list) (ToUint32 port0)
           (send_host (if typeof address0 = ''function'' then Undefined else address0) s)
           (send_callback (if typeof address0 = ''function'' then address0
              else if typeof callback0 \<noteq> ''function'' then Undefined else callback0)))
        (if bindState s = BIND_STATE_UNBOUND
         then snd (Socket_bind [JObj [(''port'', JNum 0), (''exclusive'', JBool True)], Null] s)
         else s))"
proof (cases "bindState s = BIND_STATE_UNBOUND")
  case True
  obtain s1 where s1: "Socket_bind [JObj [(''port'', JNum 0), (''exclusive'', JBool True)], Null] s = (None, s1)"
    using Socket_bind_unbound [OF True] by (metis prod.collapse)
  have "socketType s1 = socketType s"
    using Socket_bind_socketType [of "[JObj [(''port'', JNum 0), (''exclusive'', JBool True)], Null]" s]
    by (simp add: s1)
  then have "send_host a s1 = send_host a s" for a
    by (rule send_host_socketType)
  then show ?thesis
    using assms True
    by (simp add: Socket_send_def Let_def s1)
next
  case False
  with assms show ?thesis
    by (simp add: Socket_send_def Let_def)
qed

lemma Socket_send_thrown:
  assumes "fst (Socket_send buf args s) = Some error"
  shows "Socket_send buf args s = (Some error, s)"
proof (cases "send_arguments buf args")
  case (Inl e)
  with assms show ?thesis by (simp add: Socket_send_def)
next
  case (Inr r)
  obtain list port0 address0 callback0 where r: "r = (list, port0, address0, callback0)"
    by (cases r)
  show ?thesis
  proof (cases "ToUint32 port0 \<noteq> 0 \<and> \<not> 65535 < ToUint32 port0 \<and>
      (typeof address0 = ''function'' \<or> \<not> truthy address0 \<or> typeof address0 = ''string'')")
    case True
    with assms Socket_send_sent [OF Inr [unfolded r], of s] show ?thesis by simp
  next
    case False
    with assms Inr r show ?thesis
      by (auto simp: Socket_send_def Let_def split: if_splits)
  qed
qed

lemma Socket_send_cases:
  obtains (thrown) error where "Socket_send buf args s = (Some error, s)"
  | (sent) list port host callback where
      "Socket_send buf args s =
         (None, schedule (Send list port host callback)
            (if bindState s = BIND_STATE_UNBOUND
             then snd (Socket_bind [JObj [(''port'', JNum 0), (''exclusive'', JBool True)], Null] s)
             else s))"
proof (cases "fst (Socket_send buf args s)")
  case (Some error)
  then show ?thesis by (intro thrown [of error] Socket_send_thrown)
next
  case None
  obtain list port0 address0 callback0 where
    r: "send_arguments buf args = Inr (list, port0, address0, callback0)"
    using None by (cases "send_arguments buf args") (auto simp: Socket_send_def)
  have "ToUint32 port0 \<noteq> 0 \<and> \<not> 65535 < ToUint32 port0 \<and>
      (typeof address0 = ''function'' \<or> \<not> truthy address0 \<or> typeof address0 = ''string'')"
    using None r by (auto simp: Socket_send_def Let_def split: if_splits)
  then show ?thesis
    using Socket_send_sent [OF r, of s] by (intro sent) auto
qed

lemma sched_inv_send: "sched_inv s \<Longrightarrow> sched_inv (snd (Socket_send buf args s))"
  by (cases buf args s rule: Socket_send_cases)
     (simp_all add: sched_inv_schedule sched_inv_bind)

lemma sched_inv_close: "sched_inv s \<Longrightarrow> sched_inv (Socket_close callback s)"
  by (simp add: Socket_close_def sched_inv_schedule)

lemma sched_inv_step: "sched_inv s \<Longrightarrow> sched_inv (step s input)"
  by (cases input)
     (simp_all add: sched_inv_bind sched_inv_send sched_inv_close sched_inv_settle
        sched_inv_awake_resume listen_message_def listen_end_def)

lemma sched_inv_run: "sched_inv s \<Longrightarrow> sched_inv (run s inputs)"
  unfolding run_def by (induction inputs arbitrary: s) (simp_all add: sched_inv_step)

section \<open>The bind state along a run\<close>

lemma listened_simps [simp]:
  "listened (s\<lparr>loops := ls\<rparr>) = listened s"
  "listened (s\<lparr>started := ts\<rparr>) = listened s"
  "listened (s\<lparr>workQueue := ts\<rparr>) = listened s"
  "listened (s\<lparr>enqueued := ts\<rparr>) = listened s"
  "listened (s\<lparr>isIdle := b\<rparr>) = listened s"
  "listened (s\<lparr>bindState := bs\<rparr>) = listened s"
  "listened (s\<lparr>pumps := hs\<rparr>) = listened s"
  "listened (s\<lparr>handle := ho\<rparr>) = listened s"
  "listened (s\<lparr>listeners := lis\<rparr>) = listened s"
  "listened (log a s) = (listened s \<or> a = Emit EvListening)"
  "listened (on name fn s) = listened s"
  "listened (once name fn s) = listened s"
  "listened (deliver e s) = (listened s \<or> e = EvListening)"
  by (auto simp: listened_def)

lemma binds_ahead_simps [simp]:
  "binds_ahead (s\<lparr>started := ts\<rparr>) = binds_ahead s"
  "binds_ahead (s\<lparr>enqueued := ts\<rparr>) = binds_ahead s"
  "binds_ahead (s\<lparr>isIdle := b\<rparr>) = binds_ahead s"
  "binds_ahead (s\<lparr>bindState := bs\<rparr>) = binds_ahead s"
  "binds_ahead (s\<lparr>pumps := hs\<rparr>) = binds_ahead s"
  "binds_ahead (s\<lparr>handle := ho\<rparr>) = binds_ahead s"
  "binds_ahead (s\<lparr>trace := as\<rparr>) = binds_ahead s"
  "binds_ahead (s\<lparr>listeners := lis\<rparr>) = binds_ahead s"
  "binds_ahead (log a s) = binds_ahead s"
  "binds_ahead (on name fn s) = binds_ahead s"
  "binds_ahead (once name fn s) = binds_ahead s"
  "binds_ahead (deliver e s) = binds_ahead s"
  by (simp_all add: binds_ahead_def)

lemma Spawn_catch_bind:
  "Spawn_catch error s = (p, s') \<Longrightarrow>
     \<not> spawning p \<and> listened s' = listened s \<and> handle s' = handle s \<and>
     bindState s' = BIND_STATE_UNBOUND"
  unfolding Spawn_catch_def by (drule settled_emit) auto

lemma Close_catch_bind:
  "Close_catch error s = (p, s') \<Longrightarrow>
     \<not> spawning p \<and> listened s' = listened s \<and> handle s' = handle s \<and>
     bindState s' = bindState s"
  unfolding Close_catch_def by (drule settled_emit) auto

lemma perform_bind:
  "perform task s = (p, s') \<Longrightarrow>
     spawning p = is_Spawn task \<and> listened s' = listened s \<and>
     (handle s' = handle s \<or> handle s' = None)"
  by (cases task) (auto simp: healthCheck_def split: option.splits dest: Close_catch_bind)

lemma Send_loop_bind:
  "Send_loop h host port list callback s = (p, s') \<Longrightarrow>
     \<not> spawning p \<and> listened s' = listened s"
  by (induction h host port list callback s rule: Send_loop.induct) auto

lemma resume_bind:
  assumes "resume p reply s = Some (p', s')"
  shows "(spawning p \<and> spawning p' \<and> bindState s' = bindState s \<and> listened s' = listened s \<and>
            handle s' = handle s) \<or>
         (spawning p \<and> \<not> spawning p' \<and> bindState s' = BIND_STATE_UNBOUND \<and>
            listened s' = listened s \<and> handle s' = handle s) \<or>
         (spawning p \<and> \<not> spawning p' \<and> bindState s' = bindState s \<and> listened s' \<and>
            handle s' \<noteq> None) \<or>
         (\<not> spawning p \<and> \<not> spawning p' \<and> bindState s' = bindState s \<and>
            listened s' = listened s \<and> handle s' = handle s)"
  using assms
  by (induction p reply s rule: resume.induct)
     (auto simp: Let_def emit_not_error split: option.splits
        dest: Send_loop_bind Send_loop_frame Spawn_catch_bind Close_catch_bind)


lemma binds_ahead_one:
  "loops s = [l] \<Longrightarrow>
     binds_ahead s = (if spawning (current l) then 1 else 0) +
       length (filter is_Spawn (drop (index l) (workQueue s)))"
  by (simp add: binds_ahead_def)

lemma binds_ahead_none: "loops s = [] \<Longrightarrow> binds_ahead s = 0"
  by (simp add: binds_ahead_def)

lemma bind_inv_cong:
  assumes "bind_inv s"
    and "bindState s' = bindState s" and "binds_ahead s' \<le> binds_ahead s"
    and "listened s' = listened s" and "handle s' = handle s \<or> handle s' = None"
  shows "bind_inv s'"
  using assms unfolding bind_inv_def by auto

lemma schedule_bind:
  assumes "sched_inv s"
  shows "binds_ahead (schedule task s) \<le> binds_ahead s + (if is_Spawn task then 1 else 0) \<and>
         listened (schedule task s) = listened s \<and>
         (handle (schedule task s) = handle s \<or> handle (schedule task s) = None)"
proof (cases "isIdle s")
  case True
  define s1 where "s1 = s\<lparr>workQueue := [task], enqueued := enqueued s @ [task], isIdle := False,
         started := started s @ [task]\<rparr>"
  obtain p s' where p: "perform task s1 = (p, s')"
    by (cases "perform task s1")
  have idle: "loops s = []" "workQueue s = []"
    using True assms by (simp_all add: sched_inv_def)
  have eq: "schedule task s = s'\<lparr>loops := loops s' @ [\<lparr>index = 1, current = p\<rparr>]\<rparr>"
    using True idle p by (simp add: schedule_def awake_def drain_def Let_def s1_def)
  have s': "loops s' = []" "workQueue s' = [task]"
    using perform_frame [OF p] idle by (simp_all add: s1_def)
  have "binds_ahead (schedule task s) = (if is_Spawn task then 1 else 0)"
    unfolding eq using s' perform_bind [OF p] by (simp add: binds_ahead_def)
  moreover have "listened s1 = listened s" "handle s1 = handle s"
    by (simp_all add: s1_def)
  ultimately show ?thesis
    using perform_bind [OF p] unfolding eq by auto
next
  case False
  have eq: "schedule task s = s\<lparr>workQueue := workQueue s @ [task], enqueued := enqueued s @ [task]\<rparr>"
    using False by (simp add: schedule_def Let_def)
  show ?thesis
  proof (cases "loops s")
    case Nil
    then show ?thesis
      unfolding eq by (simp add: binds_ahead_def)
  next
    case (Cons l ls)
    with assms have "ls = []" "index l \<le> length (workQueue s)"
      by (simp_all add: sched_inv_def)
    with Cons show ?thesis
      unfolding eq by (simp add: binds_ahead_def)
  qed
qed

lemma bind_inv_new: "bind_inv (Socket_new type listener)"
  by (simp add: bind_inv_def Socket_new_def Let_def binds_ahead_def listened_def)

lemma bind_inv_log:
  "a \<noteq> Emit EvListening \<Longrightarrow> bind_inv (log a s) = bind_inv s"
  by (simp add: bind_inv_def)

lemma bind_inv_listeners [simp]: "bind_inv (s\<lparr>listeners := ls\<rparr>) = bind_inv s"
  by (simp add: bind_inv_def)

lemma bind_inv_on [simp]: "bind_inv (on name fn s) = bind_inv s"
  by (simp add: bind_inv_def)

lemma bind_inv_once [simp]: "bind_inv (once name fn s) = bind_inv s"
  by (simp add: bind_inv_def)

lemma bind_inv_deliver:
  "e \<noteq> EvListening \<Longrightarrow> bind_inv (deliver e s) = bind_inv s"
  by (simp add: bind_inv_def)

lemma bind_inv_bind:
  assumes "sched_inv s" and "bind_inv s"
  shows "bind_inv (snd (Socket_bind args s))"
proof (cases "bindState s = BIND_STATE_UNBOUND")
  case False
  with assms show ?thesis by (simp add: Socket_bind_def)
next
  case True
  define s2 where "s2 = (if args \<noteq> [] \<and> typeof (last args) = ''function''
      then once ''listening'' (last args) (s\<lparr>bindState := BIND_STATE_BINDING\<rparr>)
      else s\<lparr>bindState := BIND_STATE_BINDING\<rparr>)"
  have "sched_inv s2"
    using assms(1) by (simp add: s2_def)
  moreover have "binds_ahead s2 = binds_ahead s" "listened s2 = listened s"
    by (simp_all add: s2_def)
  moreover have "handle s2 = handle s" "bindState s2 = BIND_STATE_BINDING"
    by (simp_all add: s2_def)
  ultimately have s2: "sched_inv s2" "binds_ahead s2 = 0" "\<not> listened s2" "handle s2 = None"
    "bindState s2 = BIND_STATE_BINDING"
    using assms(2) True by (auto simp: bind_inv_def)
  obtain task where eq: "snd (Socket_bind args s) = schedule task s2"
    using True by (simp add: Socket_bind_def Let_def s2_def)
  from schedule_bind [OF s2(1), of task] schedule_frame [of task s2] s2(2-5) show ?thesis
    unfolding eq bind_inv_def by (cases "is_Spawn task") auto
qed

lemma bind_inv_schedule:
  assumes "sched_inv s" and "bind_inv s" and "\<not> is_Spawn task"
  shows "bind_inv (schedule task s)"
  using schedule_bind [OF assms(1), of task] schedule_frame [of task s] assms(3)
  by (intro bind_inv_cong [OF assms(2)]) simp_all

lemma bind_inv_send:
  assumes "sched_inv s" and "bind_inv s"
  shows "bind_inv (snd (Socket_send buf args s))"
  using assms
  by (cases buf args s rule: Socket_send_cases)
     (simp_all add: bind_inv_schedule bind_inv_bind sched_inv_bind)

lemma bind_inv_close:
  assumes "sched_inv s" and "bind_inv s"
  shows "bind_inv (Socket_close callback s)"
  using assms by (simp add: Socket_close_def bind_inv_schedule)


lemma BindState_binding:
  "b \<noteq> BIND_STATE_BOUND \<Longrightarrow> b \<noteq> BIND_STATE_UNBOUND \<Longrightarrow> b = BIND_STATE_BINDING"
  by (cases b) simp_all

lemma bind_inv_settle:
  assumes "sched_inv s" and "bind_inv s"
  shows "bind_inv (settle i reply s)"
proof (cases "i < length (loops s)")
  case False
  then show ?thesis using assms by (simp add: settle_def)
next
  case True
  show ?thesis
  proof (cases "resume (current (loops s ! i)) reply s")
    case None
    then show ?thesis using assms by (simp add: settle_def)
  next
    case (Some ps)
    obtain p s' where ps: "ps = (p, s')" by (cases ps)
    obtain l where l: "loops s = [l]" and i0: "i = 0"
      using True assms by (cases "loops s") (auto simp: sched_inv_def)
    have r: "resume (current l) reply s = Some (p, s')"
      using Some ps l i0 by simp
    define t where "t = s'\<lparr>loops := [l\<lparr>current := p\<rparr>]\<rparr>"
    have eq: "settle i reply s = t"
      using r l i0 resume_frame [OF r] by (simp add: settle_def t_def)
    define n where "n = length (filter is_Spawn (drop (index l) (workQueue s)))"
    have wq: "workQueue s' = workQueue s"
      using resume_frame [OF r] by simp
    have old: "binds_ahead s = (if spawning (current l) then 1 else 0) + n"
      using l by (simp add: binds_ahead_one n_def)
    have new: "binds_ahead t = (if spawning p then 1 else 0) + n"
      by (simp add: binds_ahead_def t_def n_def wq)
    have obs: "bindState t = bindState s'" "listened t = listened s'" "handle t = handle s'"
      by (simp_all add: t_def)
    from resume_bind [OF r] assms(2) show ?thesis
      unfolding eq bind_inv_def old new obs
      by (auto intro: BindState_binding)
  qed
qed

lemma bind_inv_awake_resume:
  assumes "sched_inv s" and "bind_inv s"
  shows "bind_inv (awake_resume i s)"
proof (cases "i < length (loops s)")
  case False
  then show ?thesis using assms by (simp add: awake_resume_def)
next
  case True
  then obtain l where l: "loops s = [l]" and i0: "i = 0"
    using assms by (cases "loops s") (auto simp: sched_inv_def)
  show ?thesis
  proof (cases "current l")
    case (Done outcome)
    show ?thesis
    proof (cases outcome)
      case (Threw error)
      have eq: "awake_resume i s = s\<lparr>loops := []\<rparr>"
        using Threw Done l i0 by (simp add: awake_resume_def)
      show ?thesis
        unfolding eq by (rule bind_inv_cong [OF assms(2)]) (simp_all add: binds_ahead_def)
    next
      case Returned
      show ?thesis
      proof (cases "index l < length (workQueue s)")
        case False
        have eq: "awake_resume i s = s\<lparr>workQueue := [], isIdle := True, loops := []\<rparr>"
          using False Returned Done l i0 by (simp add: awake_resume_def drain_def)
        show ?thesis
          unfolding eq
          by (rule bind_inv_cong [OF assms(2)]) (simp_all add: binds_ahead_def)
      next
        case less: True
        define task where "task = workQueue s ! index l"
        obtain p s' where p: "perform task (s\<lparr>started := started s @ [task]\<rparr>) = (p, s')"
          by (cases "perform task (s\<lparr>started := started s @ [task]\<rparr>)")
        have d: "drop (index l) (workQueue s) = task # drop (Suc (index l)) (workQueue s)"
          using less by (simp add: Cons_nth_drop_Suc task_def)
        define t where "t = s'\<lparr>loops := [\<lparr>index = Suc (index l), current = p\<rparr>]\<rparr>"
        have eq: "awake_resume i s = t"
          using less Returned Done l i0 p perform_frame [OF p]
          by (simp add: awake_resume_def drain_def Let_def task_def t_def)
        have wq: "workQueue s' = workQueue s" "bindState s' = bindState s"
          using perform_frame [OF p] by simp_all
        have old: "binds_ahead s = length (filter is_Spawn (drop (index l) (workQueue s)))"
          using l Done by (simp add: binds_ahead_one)
        have new: "binds_ahead t = (if spawning p then 1 else 0) +
            length (filter is_Spawn (drop (Suc (index l)) (workQueue s)))"
          by (simp add: binds_ahead_def t_def wq)
        have "binds_ahead t = binds_ahead s"
          unfolding old new d using perform_bind [OF p] by simp
        moreover have "bindState t = bindState s" "listened t = listened s"
          "handle t = handle s \<or> handle t = None"
          using perform_bind [OF p] wq by (simp_all add: t_def)
        ultimately show ?thesis
          unfolding eq by (intro bind_inv_cong [OF assms(2)]) simp_all
      qed
    qed
  qed (use l i0 assms in \<open>simp_all add: awake_resume_def\<close>)
qed

lemma bind_inv_listen_message: "bind_inv (listen_message h data from s) = bind_inv s"
  by (simp add: listen_message_def emit_not_error bind_inv_deliver)

lemma bind_inv_listen_end: "bind_inv (listen_end h s) = bind_inv s"
  by (simp add: listen_end_def emit_not_error bind_inv_def)

lemma bind_inv_step: "sched_inv s \<Longrightarrow> bind_inv s \<Longrightarrow> bind_inv (step s input)"
  by (cases input)
     (simp_all add: bind_inv_bind bind_inv_send bind_inv_close bind_inv_settle
        bind_inv_awake_resume bind_inv_listen_message bind_inv_listen_end)

lemma invariants_run:
  "sched_inv s \<Longrightarrow> bind_inv s \<Longrightarrow> sched_inv (run s inputs) \<and> bind_inv (run s inputs)"
  unfolding run_def
  by (induction inputs arbitrary: s) (simp_all add: sched_inv_step bind_inv_step)

section \<open>Runs and the steps of awake\<close>

lemma reachable_inv:
  "sched_inv (run (Socket_new type listener) inputs) \<and>
   bind_inv (run (Socket_new type listener) inputs)"
  by (intro invariants_run sched_inv_new bind_inv_new)

lemma run_new_udp4: "run new_udp4 inputs = run (Socket_new (JStr ''udp4'') Undefined) inputs"
  by (simp add: new_udp4_def)

lemma run_append: "run s (inputs @ later) = run (run s inputs) later"
  by (simp add: run_def)

lemma awake_resume_next:
  assumes "loops s = [l]" and "current l = Done Returned" and "index l < length (workQueue s)"
  shows "started (awake_resume 0 s) = started s @ [workQueue s ! index l] \<and>
         loops (awake_resume 0 s) =
           [\<lparr>index = Suc (index l),
             current = fst (perform (workQueue s ! index l) s)\<rparr>]"
proof -
  define task where "task = workQueue s ! index l"
  obtain p s' where p: "perform task (s\<lparr>started := started s @ [task]\<rparr>) = (p, s')"
    by (cases "perform task (s\<lparr>started := started s @ [task]\<rparr>)")
  have "fst (perform task s) = fst (perform task (s\<lparr>started := started s @ [task]\<rparr>))"
    by (cases task)
       (simp_all add: healthCheck_def Close_catch_def has_listener_def split: option.splits)
  with assms p perform_frame [OF p] show ?thesis
    by (simp add: awake_resume_def drain_def Let_def task_def)
qed

lemma awake_resume_last:
  assumes "loops s = [l]" and "current l = Done Returned" and "\<not> index l < length (workQueue s)"
  shows "awake_resume 0 s = s\<lparr>workQueue := [], isIdle := True, loops := []\<rparr>"
  using assms by (simp add: awake_resume_def drain_def)




lemma schedule_busy:
  "\<not> isIdle s \<Longrightarrow>
     schedule task s = s\<lparr>workQueue := workQueue s @ [task], enqueued := enqueued s @ [task]\<rparr>"
  by (simp add: schedule_def Let_def)

lemma has_listener_simps [simp]:
  "has_listener name (s\<lparr>handle := ho\<rparr>) = has_listener name s"
  "has_listener name (s\<lparr>isIdle := b\<rparr>) = has_listener name s"
  "has_listener name (s\<lparr>bindState := bs\<rparr>) = has_listener name s"
  "has_listener name (s\<lparr>workQueue := ts\<rparr>) = has_listener name s"
  "has_listener name (s\<lparr>loops := ls\<rparr>) = has_listener name s"
  "has_listener name (s\<lparr>pumps := hs\<rparr>) = has_listener name s"
  "has_listener name (s\<lparr>trace := as\<rparr>) = has_listener name s"
  "has_listener name (s\<lparr>enqueued := ts\<rparr>) = has_listener name s"
  "has_listener name (s\<lparr>started := ts\<rparr>) = has_listener name s"
  "has_listener name (log a s) = has_listener name s"
  by (simp_all add: has_listener_def)


lemma awake_resume_threw:
  assumes "loops s = [l]" and "current l = Done (Threw error)"
  shows "awake_resume 0 s = s\<lparr>loops := []\<rparr>"
  using assms by (simp add: awake_resume_def)

lemma schedule_idle_state:
  assumes "isIdle s" and "workQueue s = []" and "loops s = []"
  shows "schedule task s =
     (snd (perform task
        (s\<lparr>workQueue := [task], enqueued := enqueued s @ [task], isIdle := False,
           started := started s @ [task]\<rparr>)))
       \<lparr>loops := [\<lparr>index = 1, current = fst (perform task
          (s\<lparr>workQueue := [task], enqueued := enqueued s @ [task], isIdle := False,
             started := started s @ [task]\<rparr>))\<rparr>]\<rparr>"
proof -
  define s0 where "s0 = s\<lparr>workQueue := [task], enqueued := enqueued s @ [task], isIdle := False,
      started := started s @ [task]\<rparr>"
  obtain p s' where p: "perform task s0 = (p, s')"
    by (cases "perform task s0")
  have "loops s' = []"
    using perform_frame [OF p] assms(3) by (simp add: s0_def)
  with assms p show ?thesis
    by (simp add: schedule_def awake_def drain_def Let_def s0_def)
qed








section \<open>bind on a socket that is not unbound\<close>

text \<open>
  Claim C2. \<^verbatim>\<open>bind\<close> on a socket whose state is not \<^verbatim>\<open>BIND_STATE_UNBOUND\<close> throws
  \<^verbatim>\<open>ERR_SOCKET_ALREADY_BOUND\<close> and leaves the socket as it is. On an unbound socket
  \<^verbatim>\<open>bind\<close> throws nothing and returns with the state \<^verbatim>\<open>BIND_STATE_BINDING\<close>, before any
  promise has settled, so that a second \<^verbatim>\<open>bind\<close> right after it, with any arguments, throws
  \<^verbatim>\<open>ERR_SOCKET_ALREADY_BOUND\<close>.
\<close>

theorem bind_already_bound:
  "(bindState s \<noteq> BIND_STATE_UNBOUND \<longrightarrow>
      Socket_bind args s = (Some ERR_SOCKET_ALREADY_BOUND, s)) \<and>
   (bindState s = BIND_STATE_UNBOUND \<longrightarrow>
      fst (Socket_bind args s) = None \<and>
      bindState (snd (Socket_bind args s)) = BIND_STATE_BINDING \<and>
      Socket_bind args' (snd (Socket_bind args s)) =
        (Some ERR_SOCKET_ALREADY_BOUND, snd (Socket_bind args s)))"
proof -
  have binding: "bindState (snd (Socket_bind args s)) = BIND_STATE_BINDING"
    if "bindState s = BIND_STATE_UNBOUND"
    using that by (simp add: Socket_bind_def Let_def schedule_frame log_def)
  have again: "Socket_bind args' t = (Some ERR_SOCKET_ALREADY_BOUND, t)"
    if "bindState t = BIND_STATE_BINDING" for t
    using that by (simp add: Socket_bind_def)
  show ?thesis
    using binding again by (simp add: Socket_bind_def Let_def)
qed

theorem bind_already_bound_witness:
  "bindState new_udp4 = BIND_STATE_UNBOUND \<and>
   fst (Socket_bind [JNum 8000] new_udp4) = None \<and>
   bindState (snd (Socket_bind [JNum 8000] new_udp4)) = BIND_STATE_BINDING \<and>
   bindState (snd (Socket_bind [JNum 8000] new_udp4)) \<noteq> BIND_STATE_UNBOUND \<and>
   fst (Socket_bind [JNum 9000] (snd (Socket_bind [JNum 8000] new_udp4))) =
     Some ERR_SOCKET_ALREADY_BOUND"
  using bind_already_bound [of new_udp4 "[JNum 8000]" "[JNum 9000]"]
  by (simp add: new_udp4_def Socket_new_def)

section \<open>The port of send\<close>

text \<open>
  Claim C6. \<^verbatim>\<open>send\<close> throws \<^verbatim>\<open>ERR_SOCKET_BAD_PORT\<close> exactly when its buffer argument is
  accepted and the port argument, coerced by \<^verbatim>\<open>>>> 0\<close> to an unsigned 32-bit value, is 0 or
  greater than 65535; the error carries the coerced port and the socket is left as it is,
  with no task given to \<^verbatim>\<open>schedule\<close>. The ports 0 and 70000 are rejected so, and
  4294967376, which is coerced to 80, is not. This holds whatever the engine makes of a
  port given as a string, which \<open>ToUint32\<close> leaves open but for the empty string and
  strings of up to fifteen decimal digits.
\<close>

theorem send_bad_port:
  "((\<exists>p. fst (Socket_send buf args s) = Some (ERR_SOCKET_BAD_PORT p)) \<longleftrightarrow>
      (\<exists>list port address callback.
         send_arguments buf args = Inr (list, port, address, callback) \<and>
         (ToUint32 port = 0 \<or> 65535 < ToUint32 port))) \<and>
   (\<forall>list port address callback.
      send_arguments buf args = Inr (list, port, address, callback) \<and>
      (ToUint32 port = 0 \<or> 65535 < ToUint32 port) \<longrightarrow>
      Socket_send buf args s = (Some (ERR_SOCKET_BAD_PORT (ToUint32 port)), s))"
proof -
  have bad: "Socket_send buf args s = (Some (ERR_SOCKET_BAD_PORT (ToUint32 port)), s)"
    if "send_arguments buf args = Inr (list, port, address, callback)"
      and "ToUint32 port = 0 \<or> 65535 < ToUint32 port" for list port address callback
    using that by (auto simp: Socket_send_def Let_def)
  have good: "fst (Socket_send buf args s) \<noteq> Some (ERR_SOCKET_BAD_PORT p)"
    if "send_arguments buf args = Inr (list, port, address, callback)"
      and "\<not> (ToUint32 port = 0 \<or> 65535 < ToUint32 port)" for list port address callback p
  proof (cases "typeof address = ''function'' \<or> \<not> truthy address \<or> typeof address = ''string''")
    case True
    with Socket_send_sent [OF that(1), of s] that(2) show ?thesis by simp
  next
    case False
    with that show ?thesis by (simp add: Socket_send_def Let_def)
  qed
  have none: "fst (Socket_send buf args s) \<noteq> Some (ERR_SOCKET_BAD_PORT p)"
    if "send_arguments buf args = Inl error" for error p
  proof -
    have "error \<noteq> ERR_SOCKET_BAD_PORT p"
      using that
      by (auto simp: send_arguments_def Let_def
            split: if_splits sum.splits option.splits
            elim!: sliceBuffer.elims buffer_list.elims)
    with that show ?thesis by (simp add: Socket_send_def)
  qed
  show ?thesis
  proof (cases "send_arguments buf args")
    case (Inl error)
    with none show ?thesis by auto
  next
    case (Inr r)
    obtain list port address callback where "r = (list, port, address, callback)"
      by (cases r)
    with Inr have r: "send_arguments buf args = Inr (list, port, address, callback)"
      by simp
    show ?thesis
    proof (cases "ToUint32 port = 0 \<or> 65535 < ToUint32 port")
      case True
      with bad [OF r] r show ?thesis by auto
    next
      case False
      with good [OF r] r show ?thesis by auto
    qed
  qed
qed


theorem send_bad_port_witness:
  "Socket_send (Prim (JStr ''hello'')) [JNum 0, JStr ''localhost''] new_udp4 =
     (Some (ERR_SOCKET_BAD_PORT 0), new_udp4) \<and>
   Socket_send (Prim (JStr ''hello'')) [JNum 70000, JStr ''localhost''] new_udp4 =
     (Some (ERR_SOCKET_BAD_PORT 70000), new_udp4) \<and>
   fst (Socket_send (Prim (JStr ''hello'')) [JNum 4294967376, JStr ''localhost''] new_udp4) \<noteq>
     Some (ERR_SOCKET_BAD_PORT 80)"
proof -
  have a: "send_arguments (Prim (JStr ''hello'')) [JNum n, JStr ''localhost''] =
      Inr ([Buffer_from ''hello''], JNum n, JStr ''localhost'', Undefined)" for n
    by (simp add: send_arguments_def sliced_def arg_def)
  have "Socket_send (Prim (JStr ''hello'')) [JNum 0, JStr ''localhost''] new_udp4 =
     (Some (ERR_SOCKET_BAD_PORT 0), new_udp4)"
    using send_bad_port [of "Prim (JStr ''hello'')" "[JNum 0, JStr ''localhost'']" new_udp4]
      a [of 0]
    by simp
  moreover have "Socket_send (Prim (JStr ''hello'')) [JNum 70000, JStr ''localhost''] new_udp4 =
     (Some (ERR_SOCKET_BAD_PORT 70000), new_udp4)"
    using send_bad_port [of "Prim (JStr ''hello'')" "[JNum 70000, JStr ''localhost'']" new_udp4]
      a [of 70000]
    by simp
  moreover have "fst (Socket_send (Prim (JStr ''hello'')) [JNum 4294967376, JStr ''localhost''] new_udp4) \<noteq>
     Some (ERR_SOCKET_BAD_PORT 80)"
    using send_bad_port [of "Prim (JStr ''hello'')" "[JNum 4294967376, JStr ''localhost'']" new_udp4]
      a [of 4294967376]
    by simp
  ultimately show ?thesis by simp
qed

section \<open>The buffer of send\<close>

lemma fixBufferList_None:
  "fixBufferList buffers = None \<longleftrightarrow> \<not> list_all string_or_bytes buffers"
  by (induction buffers rule: fixBufferList.induct) (auto split: option.splits)

lemma send_arguments_invalid:
  assumes "\<not> valid_buffer buf"
  shows "\<exists>name. send_arguments buf args = Inl (ERR_INVALID_ARG_TYPE name)"
proof (cases buf)
  case (Prim v)
  with assms show ?thesis
    by (cases v) (simp_all add: send_arguments_def Let_def)
next
  case (U8 b)
  with assms show ?thesis by simp
next
  case (Arr buffers)
  with assms have "fixBufferList buffers = None"
    by (simp add: fixBufferList_None)
  with Arr show ?thesis
    by (simp add: send_arguments_def Let_def)
qed

lemma ToUint32_negative: "ToUint32 (JNum (n + 4294967296)) = ToUint32 (JNum n)"
  by (simp add: word_of_int_eq_iff take_bit_eq_mod)

text \<open>
  Claim C9, as amended. A call of \<^verbatim>\<open>send\<close> whose buffer argument is neither a string, nor a
  byte array, nor an array of those throws \<^verbatim>\<open>ERR_INVALID_ARG_TYPE\<close> and leaves the socket as
  it is, with no task given to \<^verbatim>\<open>schedule\<close>. A negative length is not rejected: in the
  shape of call with offset and length, \<^verbatim>\<open>sliceBuffer\<close> coerces the length by \<^verbatim>\<open>>>> 0\<close>, so
  the call does what the call with the length plus \<open>2 ^ 32\<close> does, and \<^verbatim>\<open>sliceBuffer\<close>
  returns a slice of every string and byte array, whatever the offset and the length.
\<close>

theorem send_invalid_buffer:
  "(\<not> valid_buffer buf \<longrightarrow>
      (\<exists>name. Socket_send buf args s = (Some (ERR_INVALID_ARG_TYPE name), s))) \<and>
   (n < 0 \<and> sliced (offset # JNum n # rest) \<longrightarrow>
      Socket_send buf (offset # JNum n # rest) s =
        Socket_send buf (offset # JNum (n + 2 ^ 32) # rest) s) \<and>
   (string_or_bytes buf \<longrightarrow> (\<exists>b. sliceBuffer buf offset (JNum n) = Inr b))"
proof (intro conjI impI)
  assume "\<not> valid_buffer buf"
  from send_arguments_invalid [OF this, of args] show
    "\<exists>name. Socket_send buf args s = (Some (ERR_INVALID_ARG_TYPE name), s)"
    by (auto simp: Socket_send_def)
next
  assume a: "n < 0 \<and> sliced (offset # JNum n # rest)"
  have s: "sliced (offset # JNum (n + 2 ^ 32) # rest) = sliced (offset # JNum n # rest)"
    by (simp add: sliced_def arg_def)
  have "sliceBuffer buf offset (JNum (n + 2 ^ 32)) = sliceBuffer buf offset (JNum n)"
    using ToUint32_negative [of n]
    by (cases "(buf, offset, JNum n)" rule: sliceBuffer.cases)
       (simp_all del: ToUint32.simps)
  moreover have "arg (offset # JNum m # rest) 0 = offset" "arg (offset # JNum m # rest) 1 = JNum m"
    "arg (offset # JNum m # rest) 2 = arg rest 0" "arg (offset # JNum m # rest) 3 = arg rest 1"
    "arg (offset # JNum m # rest) 4 = arg rest 2" for m
    by (simp_all add: arg_def nth_Cons')
  ultimately have "send_arguments buf (offset # JNum (n + 2 ^ 32) # rest) =
      send_arguments buf (offset # JNum n # rest)"
    using a s by (simp add: send_arguments_def)
  then show "Socket_send buf (offset # JNum n # rest) s =
      Socket_send buf (offset # JNum (n + 2 ^ 32) # rest) s"
    by (simp add: Socket_send_def)
next
  assume "string_or_bytes buf"
  then show "\<exists>b. sliceBuffer buf offset (JNum n) = Inr b"
    by (cases buf rule: string_or_bytes.cases) (simp_all add: Let_def)
qed

theorem send_invalid_buffer_witness:
  "\<not> valid_buffer (Prim (JNum 5)) \<and>
   (\<exists>name. Socket_send (Prim (JNum 5)) [JNum 8000] new_udp4 =
      (Some (ERR_INVALID_ARG_TYPE name), new_udp4)) \<and>
   (- 1 :: int) < 0 \<and> sliced [JNum 0, JNum (- 1), JNum 8000, JStr ''127.0.0.1''] \<and>
   Socket_send (U8 (Buffer_from ''abc'')) [JNum 0, JNum (- 1), JNum 8000, JStr ''127.0.0.1''] new_udp4 =
     Socket_send (U8 (Buffer_from ''abc'')) [JNum 0, JNum 4294967295, JNum 8000, JStr ''127.0.0.1'']
       new_udp4 \<and>
   string_or_bytes (U8 (Buffer_from ''abc'')) \<and>
   (\<exists>b. sliceBuffer (U8 (Buffer_from ''abc'')) (JNum 0) (JNum (- 1)) = Inr b)"
proof -
  have s: "sliced [JNum 0, JNum (- 1), JNum 8000, JStr ''127.0.0.1'']"
    by (simp add: sliced_def arg_def)
  from send_invalid_buffer [of "Prim (JNum 5)" "[JNum 8000]" new_udp4 "- 1" "JNum 0"
      "[JNum 8000, JStr ''127.0.0.1'']"]
    send_invalid_buffer [of "U8 (Buffer_from ''abc'')" "[JNum 8000]" new_udp4 "- 1" "JNum 0"
      "[JNum 8000, JStr ''127.0.0.1'']"] s
  show ?thesis by simp
qed

text \<open>
  The claim as it was stated fails: with the buffer \<^verbatim>\<open>abc\<close>, offset 0 and length -1 the
  call is in the shape with offset and length, and \<^verbatim>\<open>send\<close> on a new socket throws nothing
  and gives its two tasks to \<^verbatim>\<open>schedule\<close>.
\<close>

theorem send_negative_length_counterexample:
  "sliced [JNum 0, JNum (- 1), JNum 8000, JStr ''127.0.0.1''] \<and>
   fst (Socket_send (U8 (Buffer_from ''abc'')) [JNum 0, JNum (- 1), JNum 8000, JStr ''127.0.0.1'']
     new_udp4) = None \<and>
   length (enqueued (snd (Socket_send (U8 (Buffer_from ''abc''))
     [JNum 0, JNum (- 1), JNum 8000, JStr ''127.0.0.1''] new_udp4))) = 2"
proof -
  have s: "sliced [JNum 0, JNum (- 1), JNum 8000, JStr ''127.0.0.1'']"
    by (simp add: sliced_def arg_def)
  obtain b where a: "send_arguments (U8 (Buffer_from ''abc''))
      [JNum 0, JNum (- 1), JNum 8000, JStr ''127.0.0.1''] =
      Inr ([b], JNum 8000, JStr ''127.0.0.1'', Undefined)"
    using s by (simp add: send_arguments_def arg_def)
  have u: "bindState new_udp4 = BIND_STATE_UNBOUND" "enqueued new_udp4 = []"
    by (simp_all add: new_udp4_def Socket_new_def)
  show ?thesis
    using s u by (simp add: Socket_send_sent [OF a] schedule_frame Socket_bind_def Let_def log_def)
qed

section \<open>send on an unbound socket\<close>




section \<open>One task at a time, in the order of schedule\<close>




section \<open>A socket that has bound stays bound\<close>

lemma listened_step:
  assumes "sched_inv s" and "listened s"
  shows "listened (step s input)"
proof (cases input)
  case (Call_bind args)
  show ?thesis
  proof (cases "bindState s = BIND_STATE_UNBOUND")
    case True
    then show ?thesis
      using assms schedule_bind [of "if args \<noteq> [] \<and> typeof (last args) = ''function''
          then once ''listening'' (last args) (s\<lparr>bindState := BIND_STATE_BINDING\<rparr>)
          else s\<lparr>bindState := BIND_STATE_BINDING\<rparr>"]
      by (simp add: Call_bind Socket_bind_def Let_def)
  next
    case False
    with assms show ?thesis by (simp add: Call_bind Socket_bind_def)
  qed
next
  case (Call_send buf args)
  have b: "listened (snd (Socket_bind args' s))" for args'
  proof (cases "bindState s = BIND_STATE_UNBOUND")
    case True
    then show ?thesis
      using assms schedule_bind [of "if args' \<noteq> [] \<and> typeof (last args') = ''function''
          then once ''listening'' (last args') (s\<lparr>bindState := BIND_STATE_BINDING\<rparr>)
          else s\<lparr>bindState := BIND_STATE_BINDING\<rparr>"]
      by (simp add: Socket_bind_def Let_def)
  next
    case False
    with assms show ?thesis by (simp add: Socket_bind_def)
  qed
  show ?thesis
    using assms b schedule_bind sched_inv_bind
    by (cases buf args s rule: Socket_send_cases) (simp_all add: Call_send)
next
  case (Call_close callback)
  with assms show ?thesis
    using schedule_bind [of "if typeof callback = ''function'' then on ''close'' callback s else s"]
    by (simp add: Socket_close_def)
next
  case (Settled i reply)
  show ?thesis
  proof (cases "i < length (loops s)")
    case False
    with assms show ?thesis by (simp add: Settled settle_def)
  next
    case True
    show ?thesis
    proof (cases "resume (current (loops s ! i)) reply s")
      case None
      with assms show ?thesis by (simp add: Settled settle_def)
    next
      case (Some ps)
      obtain p s' where ps: "ps = (p, s')" by (cases ps)
      from resume_bind [OF Some [unfolded ps]] assms(2) have "listened s'" by auto
      with Some ps True show ?thesis by (simp add: Settled settle_def)
    qed
  qed
next
  case (Awake_resumed i)
  show ?thesis
  proof (cases "i < length (loops s)")
    case False
    with assms show ?thesis by (simp add: Awake_resumed awake_resume_def)
  next
    case True
    then obtain l where l: "loops s = [l]" and i0: "i = 0"
      using assms by (cases "loops s") (auto simp: sched_inv_def)
    show ?thesis
    proof (cases "current l = Done Returned")
      case False
      with l i0 assms(2) show ?thesis
        by (cases "current l") (auto simp: Awake_resumed awake_resume_def split: Outcome.splits)
    next
      case ret: True
      show ?thesis
      proof (cases "index l < length (workQueue s)")
        case False
        with awake_resume_last [OF l ret] assms(2) i0 show ?thesis
          by (simp add: Awake_resumed)
      next
        case less: True
        define task where "task = workQueue s ! index l"
        obtain p s' where p: "perform task (s\<lparr>started := started s @ [task]\<rparr>) = (p, s')"
          by (cases "perform task (s\<lparr>started := started s @ [task]\<rparr>)")
        have "listened s'"
          using perform_bind [OF p] assms(2) by simp
        with less ret l i0 p show ?thesis
          by (simp add: Awake_resumed awake_resume_def drain_def Let_def task_def)
      qed
    qed
  qed
next
  case (Datagram h data sender)
  with assms show ?thesis by (simp add: listen_message_def emit_not_error)
next
  case (Datagrams_end h)
  with assms show ?thesis by (simp add: listen_end_def emit_not_error)
qed (use assms in simp_all)

lemma listened_run:
  "sched_inv s \<Longrightarrow> listened s \<Longrightarrow> listened (run s later)"
  unfolding run_def
  by (induction later arbitrary: s) (simp_all add: sched_inv_step listened_step)


lemma perform_Close_bindState: "bindState (snd (perform Close s)) = bindState s"
  using perform_frame [of Close s "fst (perform Close s)" "snd (perform Close s)"] by simp

lemma resume_Close_bindState:
  "resume Close_close reply s = Some (p, s') \<Longrightarrow> bindState s' = bindState s"
  using resume_bind [of Close_close reply s p s'] by simp

text \<open>
  Claim C10. In every run of a socket the state is never \<^verbatim>\<open>BIND_STATE_BOUND\<close>, and
  \<^verbatim>\<open>Close.perform\<close> leaves the state as it is, at its start and when \<^verbatim>\<open>handle.close()\<close> has
  settled. Once a \<^verbatim>\<open>Spawn\<close> has succeeded, then whatever happens later, a \<^verbatim>\<open>close\<close> that
  completes included: the state is \<^verbatim>\<open>BIND_STATE_BINDING\<close>; no \<^verbatim>\<open>Spawn\<close> is being performed or
  waits in the queue; every \<^verbatim>\<open>bind\<close>, the one \<^verbatim>\<open>send\<close> makes on an unbound socket included,
  throws \<^verbatim>\<open>ERR_SOCKET_ALREADY_BOUND\<close>; and a \<^verbatim>\<open>send\<close> that throws nothing makes no such
  call and gives its \<^verbatim>\<open>Send\<close> alone to \<^verbatim>\<open>schedule\<close>.
\<close>

theorem never_rebound:
  assumes "s = run (Socket_new type listener) inputs" and "t = run s later"
  shows "bindState t \<noteq> BIND_STATE_BOUND \<and>
     bindState (snd (perform Close t)) = bindState t \<and>
     (\<forall>reply p t'. resume Close_close reply t = Some (p, t') \<longrightarrow> bindState t' = bindState t) \<and>
     (listened s \<longrightarrow>
        listened t \<and> bindState t = BIND_STATE_BINDING \<and> binds_ahead t = 0 \<and>
        (\<forall>args. Socket_bind args t = (Some ERR_SOCKET_ALREADY_BOUND, t)) \<and>
        (\<forall>buf args. fst (Socket_send buf args t) = None \<longrightarrow>
           (\<exists>list port host callback.
              snd (Socket_send buf args t) = schedule (Send list port host callback) t)))"
proof -
  have s: "sched_inv s"
    using reachable_inv [of type listener inputs] assms(1) by simp
  have "t = run (Socket_new type listener) (inputs @ later)"
    using assms by (simp add: run_append)
  then have t: "sched_inv t" "bind_inv t"
    using reachable_inv [of type listener "inputs @ later"] by simp_all
  have after: "listened t \<and> bindState t = BIND_STATE_BINDING \<and> binds_ahead t = 0 \<and>
        (\<forall>args. Socket_bind args t = (Some ERR_SOCKET_ALREADY_BOUND, t)) \<and>
        (\<forall>buf args. fst (Socket_send buf args t) = None \<longrightarrow>
           (\<exists>list port host callback.
              snd (Socket_send buf args t) = schedule (Send list port host callback) t))"
    if "listened s"
  proof -
    have l: "listened t"
      using listened_run [OF s that] assms(2) by simp
    with t(2) have b: "bindState t = BIND_STATE_BINDING" "binds_ahead t = 0"
      by (simp_all add: bind_inv_def)
    have "Socket_bind args t = (Some ERR_SOCKET_ALREADY_BOUND, t)" for args
      using b(1) by (simp add: Socket_bind_def)
    moreover have "\<exists>list port host callback.
        snd (Socket_send buf args t) = schedule (Send list port host callback) t"
      if "fst (Socket_send buf args t) = None" for buf args
      using that b(1) by (cases buf args t rule: Socket_send_cases) auto
    ultimately show ?thesis using l b by blast
  qed
  have "bindState t \<noteq> BIND_STATE_BOUND"
    using t(2) by (simp add: bind_inv_def)
  with after perform_Close_bindState [of t] resume_Close_bindState [of _ t] show ?thesis
    by blast
qed

theorem never_rebound_witness:
  "bound_socket = run (Socket_new (JStr ''udp4'') Undefined)
     [Call_bind [JNum 8000], Settled 0 (Fulfilled (Addresses [''0.0.0.0''])),
      Settled 0 (Fulfilled (Created 1)), Awake_resumed 0] \<and>
   closed_socket = run bound_socket
     [Call_close Undefined, Settled 0 (Fulfilled Void), Awake_resumed 0] \<and>
   listened bound_socket \<and> handle bound_socket = Some 1 \<and>
   handle closed_socket = None \<and> isIdle closed_socket \<and>
   bindState closed_socket = BIND_STATE_BINDING \<and>
   Socket_bind [JNum 9000] closed_socket = (Some ERR_SOCKET_ALREADY_BOUND, closed_socket) \<and>
   fst (Socket_send (Prim (JStr ''x'')) [JNum 9000] closed_socket) = None \<and>
   (\<exists>list port host callback.
      snd (Socket_send (Prim (JStr ''x'')) [JNum 9000] closed_socket) =
        schedule (Send list port host callback) closed_socket)"
proof -
  have r: "bound_socket = run (Socket_new (JStr ''udp4'') Undefined)
     [Call_bind [JNum 8000], Settled 0 (Fulfilled (Addresses [''0.0.0.0''])),
      Settled 0 (Fulfilled (Created 1)), Awake_resumed 0]"
    by (simp add: bound_socket_def new_udp4_def)
  have c: "closed_socket = run bound_socket
     [Call_close Undefined, Settled 0 (Fulfilled Void), Awake_resumed 0]"
    by (simp add: closed_socket_def)
  have l: "listened bound_socket"
    unfolding listened_def by code_simp
  have h: "handle bound_socket = Some 1" "handle closed_socket = None" "isIdle closed_socket"
    by code_simp+
  have a: "send_arguments (Prim (JStr ''x'')) [JNum 9000] =
      Inr ([Buffer_from ''x''], JNum 9000, Undefined, Undefined)"
    by (simp add: send_arguments_def sliced_def arg_def)
  have n: "fst (Socket_send (Prim (JStr ''x'')) [JNum 9000] closed_socket) = None"
    by (simp add: Socket_send_sent [OF a])
  from never_rebound [OF r c] l h n r c show ?thesis
    by simp
qed

section \<open>A Spawn that fails\<close>

lemma spawning_cases:
  assumes "spawning p"
  obtains port where "p = Spawn_resolve port" | "p = Spawn_create"
  using assms by (cases p) simp_all

text \<open>
  Claim C5, as amended. Take a run of a socket in which a \<^verbatim>\<open>Spawn\<close> is being performed, at
  the \<^verbatim>\<open>await\<close> of the resolver or of the socket manager, and let the awaited promise be
  rejected. Then the state is \<^verbatim>\<open>BIND_STATE_UNBOUND\<close>, the handle was absent and is absent,
  and the queue is as it was. If an \<^verbatim>\<open>"error"\<close> listener is registered, \<^verbatim>\<open>"error"\<close> is
  emitted with the rejection and the promise of \<^verbatim>\<open>perform\<close> is fulfilled; so the \<^verbatim>\<open>awake\<close>
  that awaits it goes on: it starts the next task of the queue, or, the queue used up,
  makes the socket idle. If no \<^verbatim>\<open>"error"\<close> listener is registered, \<^verbatim>\<open>emit\<close> throws, nothing
  is emitted, and the promise of \<^verbatim>\<open>perform\<close> is rejected with the error; the \<^verbatim>\<open>awake\<close> that
  awaits it is then over without starting a task, and the socket is left not idle.
\<close>

theorem spawn_failure:
  assumes "s = run (Socket_new type listener) inputs"
    and "i < length (loops s)" and "spawning (current (loops s ! i))"
    and "s' = settle i (Rejected error) s"
  shows "bindState s' = BIND_STATE_UNBOUND \<and>
     handle s = None \<and> handle s' = None \<and>
     workQueue s' = workQueue s \<and> started s' = started s \<and>
     (has_listener ''error'' s \<longrightarrow>
        s' = (deliver (EvError error) (s\<lparr>bindState := BIND_STATE_UNBOUND\<rparr>))
               \<lparr>loops := [(loops s ! i)\<lparr>current := Done Returned\<rparr>]\<rparr> \<and>
        trace s' = trace s @ [Emit (EvError error)] \<and>
        (index (loops s ! i) < length (workQueue s) \<longrightarrow>
           started (awake_resume i s') = started s @ [workQueue s ! index (loops s ! i)] \<and>
           loops (awake_resume i s') =
             [\<lparr>index = Suc (index (loops s ! i)),
               current = fst (perform (workQueue s ! index (loops s ! i)) s')\<rparr>]) \<and>
        (\<not> index (loops s ! i) < length (workQueue s) \<longrightarrow>
           awake_resume i s' = s'\<lparr>workQueue := [], isIdle := True, loops := []\<rparr>)) \<and>
     (\<not> has_listener ''error'' s \<longrightarrow>
        s' = s\<lparr>bindState := BIND_STATE_UNBOUND,
               loops := [(loops s ! i)\<lparr>current := Done (Threw error)\<rparr>]\<rparr> \<and>
        awake_resume i s' = s\<lparr>bindState := BIND_STATE_UNBOUND, loops := []\<rparr> \<and>
        \<not> isIdle (awake_resume i s'))"
proof -
  have inv: "sched_inv s" "bind_inv s"
    using reachable_inv [of type listener inputs] assms(1) by simp_all
  obtain l where l: "loops s = [l]" and i0: "i = 0"
    using assms(2) inv(1) by (cases "loops s") (auto simp: sched_inv_def)
  have busy: "\<not> isIdle s"
    using inv(1) l by (auto simp: sched_inv_def)
  have sp: "spawning (current l)"
    using assms(3) l i0 by simp
  have "binds_ahead s \<noteq> 0"
    using sp l by (simp add: binds_ahead_one)
  with inv(2) have h: "handle s = None"
    by (auto simp: bind_inv_def)
  have r: "resume (current l) (Rejected error) s = Some (Spawn_catch error s)"
    using sp by (cases "current l" rule: spawning_cases) simp_all
  show ?thesis
  proof (cases "has_listener ''error'' s")
    case True
    have eq: "s' = (deliver (EvError error) (s\<lparr>bindState := BIND_STATE_UNBOUND\<rparr>))
        \<lparr>loops := [l\<lparr>current := Done Returned\<rparr>]\<rparr>"
      using assms(4) r l i0 True by (simp add: settle_def Spawn_catch_def)
    have obs: "bindState s' = BIND_STATE_UNBOUND" "trace s' = trace s @ [Emit (EvError error)]"
      "handle s' = None" "loops s' = [l\<lparr>current := Done Returned\<rparr>]"
      "workQueue s' = workQueue s" "started s' = started s"
      using h by (simp_all add: eq)
    have "started (awake_resume 0 s') = started s @ [workQueue s ! index l] \<and>
        loops (awake_resume 0 s') =
          [\<lparr>index = Suc (index l), current = fst (perform (workQueue s ! index l) s')\<rparr>]"
      if "index l < length (workQueue s)"
      using awake_resume_next [of s' "l\<lparr>current := Done Returned\<rparr>"] obs that by simp
    moreover have "awake_resume 0 s' = s'\<lparr>workQueue := [], isIdle := True, loops := []\<rparr>"
      if "\<not> index l < length (workQueue s)"
      using awake_resume_last [of s' "l\<lparr>current := Done Returned\<rparr>"] obs that by simp
    ultimately show ?thesis
      using obs h l i0 True eq by simp
  next
    case False
    have eq: "s' = s\<lparr>bindState := BIND_STATE_UNBOUND, loops := [l\<lparr>current := Done (Threw error)\<rparr>]\<rparr>"
      using assms(4) r l i0 False by (simp add: settle_def Spawn_catch_def)
    have "awake_resume 0 s' = s\<lparr>bindState := BIND_STATE_UNBOUND, loops := []\<rparr>"
      using awake_resume_threw [of s' "l\<lparr>current := Done (Threw error)\<rparr>" error]
      by (simp add: eq)
    then show ?thesis
      using h l i0 False eq busy by simp
  qed
qed

theorem spawn_failure_witness:
  "heard_busy_socket = run (Socket_new (JStr ''udp4'') Undefined)
     [Call_on ''error'' (JFun 0), Call_bind [JNum 8000],
      Call_send (Prim (JStr ''x'')) [JNum 9000], Call_close Undefined] \<and>
   0 < length (loops heard_busy_socket) \<and> spawning (current (loops heard_busy_socket ! 0)) \<and>
   has_listener ''error'' heard_busy_socket \<and>
   index (loops heard_busy_socket ! 0) < length (workQueue heard_busy_socket) \<and>
   bindState heard_busy_socket = BIND_STATE_BINDING \<and>
   bindState (settle 0 (Rejected (Failure ''ENOTFOUND'')) heard_busy_socket) = BIND_STATE_UNBOUND \<and>
   trace (settle 0 (Rejected (Failure ''ENOTFOUND'')) heard_busy_socket) =
     trace heard_busy_socket @ [Emit (EvError (Failure ''ENOTFOUND''))] \<and>
   handle (settle 0 (Rejected (Failure ''ENOTFOUND'')) heard_busy_socket) = None \<and>
   started (awake_resume 0 (settle 0 (Rejected (Failure ''ENOTFOUND'')) heard_busy_socket)) =
     [Spawn (JStr ''0.0.0.0'') (JNum 8000), Send [Buffer_from ''x''] 9000 ''127.0.0.1'' None] \<and>
   busy_socket = run (Socket_new (JStr ''udp4'') Undefined)
     [Call_bind [JNum 8000], Call_send (Prim (JStr ''x'')) [JNum 9000], Call_close Undefined] \<and>
   0 < length (loops busy_socket) \<and> spawning (current (loops busy_socket ! 0)) \<and>
   \<not> has_listener ''error'' busy_socket \<and>
   bindState (settle 0 (Rejected (Failure ''ENOTFOUND'')) busy_socket) = BIND_STATE_UNBOUND \<and>
   loops (settle 0 (Rejected (Failure ''ENOTFOUND'')) busy_socket) =
     [\<lparr>index = 1, current = Done (Threw (Failure ''ENOTFOUND''))\<rparr>] \<and>
   \<not> isIdle (awake_resume 0 (settle 0 (Rejected (Failure ''ENOTFOUND'')) busy_socket)) \<and>
   heard_binding_socket = run (Socket_new (JStr ''udp4'') Undefined)
     [Call_on ''error'' (JFun 0), Call_bind [JNum 8000]] \<and>
   0 < length (loops heard_binding_socket) \<and>
   spawning (current (loops heard_binding_socket ! 0)) \<and>
   has_listener ''error'' heard_binding_socket \<and>
   \<not> index (loops heard_binding_socket ! 0) < length (workQueue heard_binding_socket) \<and>
   isIdle (awake_resume 0 (settle 0 (Rejected (Failure ''ENOTFOUND'')) heard_binding_socket))"
proof -
  have r: "heard_busy_socket = run (Socket_new (JStr ''udp4'') Undefined)
     [Call_on ''error'' (JFun 0), Call_bind [JNum 8000],
      Call_send (Prim (JStr ''x'')) [JNum 9000], Call_close Undefined]"
    by (simp add: heard_busy_socket_def heard_udp4_def new_udp4_def run_def)
  have l: "loops heard_busy_socket = [\<lparr>index = 1, current = Spawn_resolve (JNum 8000)\<rparr>]"
    by code_simp
  have q: "workQueue heard_busy_socket =
     [Spawn (JStr ''0.0.0.0'') (JNum 8000), Send [Buffer_from ''x''] 9000 ''127.0.0.1'' None, Close]"
    by code_simp
  have st: "started heard_busy_socket = [Spawn (JStr ''0.0.0.0'') (JNum 8000)]"
    by code_simp
  have b: "bindState heard_busy_socket = BIND_STATE_BINDING"
    "has_listener ''error'' heard_busy_socket"
    by code_simp+
  have r': "busy_socket = run (Socket_new (JStr ''udp4'') Undefined)
     [Call_bind [JNum 8000], Call_send (Prim (JStr ''x'')) [JNum 9000], Call_close Undefined]"
    by (simp add: busy_socket_def new_udp4_def)
  have l': "loops busy_socket = [\<lparr>index = 1, current = Spawn_resolve (JNum 8000)\<rparr>]"
    "\<not> has_listener ''error'' busy_socket"
    by code_simp+
  have pre: "0 < length (loops heard_busy_socket)"
    "spawning (current (loops heard_busy_socket ! 0))"
    "index (loops heard_busy_socket ! 0) < length (workQueue heard_busy_socket)"
    "0 < length (loops busy_socket)" "spawning (current (loops busy_socket ! 0))"
    using l l' q by simp_all
  have "bindState (settle 0 (Rejected (Failure ''ENOTFOUND'')) heard_busy_socket) =
      BIND_STATE_UNBOUND \<and>
    trace (settle 0 (Rejected (Failure ''ENOTFOUND'')) heard_busy_socket) =
      trace heard_busy_socket @ [Emit (EvError (Failure ''ENOTFOUND''))] \<and>
    handle (settle 0 (Rejected (Failure ''ENOTFOUND'')) heard_busy_socket) = None \<and>
    started (awake_resume 0 (settle 0 (Rejected (Failure ''ENOTFOUND'')) heard_busy_socket)) =
      started heard_busy_socket @
        [workQueue heard_busy_socket ! index (loops heard_busy_socket ! 0)]"
    using spawn_failure [OF r pre(1,2) refl, of "Failure ''ENOTFOUND''"] b(2) pre(3)
    by blast
  then have heard: "bindState (settle 0 (Rejected (Failure ''ENOTFOUND'')) heard_busy_socket) =
      BIND_STATE_UNBOUND \<and>
    trace (settle 0 (Rejected (Failure ''ENOTFOUND'')) heard_busy_socket) =
      trace heard_busy_socket @ [Emit (EvError (Failure ''ENOTFOUND''))] \<and>
    handle (settle 0 (Rejected (Failure ''ENOTFOUND'')) heard_busy_socket) = None \<and>
    started (awake_resume 0 (settle 0 (Rejected (Failure ''ENOTFOUND'')) heard_busy_socket)) =
      [Spawn (JStr ''0.0.0.0'') (JNum 8000), Send [Buffer_from ''x''] 9000 ''127.0.0.1'' None]"
    using l q st by simp
  have raw: "bindState (settle 0 (Rejected (Failure ''ENOTFOUND'')) busy_socket) =
      BIND_STATE_UNBOUND"
    "settle 0 (Rejected (Failure ''ENOTFOUND'')) busy_socket =
      busy_socket\<lparr>bindState := BIND_STATE_UNBOUND,
        loops := [(loops busy_socket ! 0)\<lparr>current := Done (Threw (Failure ''ENOTFOUND''))\<rparr>]\<rparr>"
    "\<not> isIdle (awake_resume 0 (settle 0 (Rejected (Failure ''ENOTFOUND'')) busy_socket))"
    using spawn_failure [OF r' pre(4,5) refl, of "Failure ''ENOTFOUND''"] l'(2)
    by blast+
  have "loops (settle 0 (Rejected (Failure ''ENOTFOUND'')) busy_socket) =
      [\<lparr>index = 1, current = Done (Threw (Failure ''ENOTFOUND''))\<rparr>]"
    unfolding raw(2) using l'(1) by simp
  with raw(1,3) have unheard:
    "bindState (settle 0 (Rejected (Failure ''ENOTFOUND'')) busy_socket) = BIND_STATE_UNBOUND \<and>
    loops (settle 0 (Rejected (Failure ''ENOTFOUND'')) busy_socket) =
      [\<lparr>index = 1, current = Done (Threw (Failure ''ENOTFOUND''))\<rparr>] \<and>
    \<not> isIdle (awake_resume 0 (settle 0 (Rejected (Failure ''ENOTFOUND'')) busy_socket))"
    by blast
  have r'': "heard_binding_socket = run (Socket_new (JStr ''udp4'') Undefined)
     [Call_on ''error'' (JFun 0), Call_bind [JNum 8000]]"
    by (simp add: heard_binding_socket_def heard_udp4_def new_udp4_def run_def)
  have pre'': "0 < length (loops heard_binding_socket)"
    "spawning (current (loops heard_binding_socket ! 0))"
    "has_listener ''error'' heard_binding_socket"
    "\<not> index (loops heard_binding_socket ! 0) < length (workQueue heard_binding_socket)"
    by code_simp+
  have "awake_resume 0 (settle 0 (Rejected (Failure ''ENOTFOUND'')) heard_binding_socket) =
      (settle 0 (Rejected (Failure ''ENOTFOUND'')) heard_binding_socket)
        \<lparr>workQueue := [], isIdle := True, loops := []\<rparr>"
    using spawn_failure [OF r'' pre''(1,2) refl, of "Failure ''ENOTFOUND''"] pre''(3,4)
    by blast
  then have last: "isIdle (awake_resume 0
      (settle 0 (Rejected (Failure ''ENOTFOUND'')) heard_binding_socket))"
    by simp
  have first: "heard_busy_socket = run (Socket_new (JStr ''udp4'') Undefined)
     [Call_on ''error'' (JFun 0), Call_bind [JNum 8000],
      Call_send (Prim (JStr ''x'')) [JNum 9000], Call_close Undefined] \<and>
   0 < length (loops heard_busy_socket) \<and> spawning (current (loops heard_busy_socket ! 0)) \<and>
   has_listener ''error'' heard_busy_socket \<and>
   index (loops heard_busy_socket ! 0) < length (workQueue heard_busy_socket) \<and>
   bindState heard_busy_socket = BIND_STATE_BINDING \<and>
   busy_socket = run (Socket_new (JStr ''udp4'') Undefined)
     [Call_bind [JNum 8000], Call_send (Prim (JStr ''x'')) [JNum 9000], Call_close Undefined] \<and>
   0 < length (loops busy_socket) \<and> spawning (current (loops busy_socket ! 0)) \<and>
   \<not> has_listener ''error'' busy_socket"
    using r r' pre l'(2) b by blast
  from first heard unheard r'' pre'' last show ?thesis
    by blast
qed

text \<open>
  The claim as it was stated fails on a socket with no \<^verbatim>\<open>"error"\<close> listener. After
  \<^verbatim>\<open>bind(8000)\<close>, \<^verbatim>\<open>send("x", 9000)\<close> and \<^verbatim>\<open>close()\<close> on a new socket, let the resolver reject
  the address of the \<^verbatim>\<open>Spawn\<close>: no event is emitted, the promise of \<^verbatim>\<open>perform\<close> is rejected
  with the resolver's error, and the \<^verbatim>\<open>awake\<close> that awaits it is over: the \<^verbatim>\<open>Send\<close> and the
  \<^verbatim>\<open>Close\<close> stay in the queue and are not started, and the socket is not idle.
\<close>

theorem spawn_failure_unheard_counterexample:
  "loops busy_socket = [\<lparr>index = 1, current = Spawn_resolve (JNum 8000)\<rparr>] \<and>
   trace (run busy_socket [Settled 0 (Rejected (Failure ''ENOTFOUND''))]) = trace busy_socket \<and>
   loops (run busy_socket [Settled 0 (Rejected (Failure ''ENOTFOUND''))]) =
     [\<lparr>index = 1, current = Done (Threw (Failure ''ENOTFOUND''))\<rparr>] \<and>
   loops (run busy_socket [Settled 0 (Rejected (Failure ''ENOTFOUND'')), Awake_resumed 0]) = [] \<and>
   \<not> isIdle (run busy_socket [Settled 0 (Rejected (Failure ''ENOTFOUND'')), Awake_resumed 0]) \<and>
   workQueue (run busy_socket [Settled 0 (Rejected (Failure ''ENOTFOUND'')), Awake_resumed 0]) =
     [Spawn (JStr ''0.0.0.0'') (JNum 8000), Send [Buffer_from ''x''] 9000 ''127.0.0.1'' None, Close] \<and>
   started (run busy_socket [Settled 0 (Rejected (Failure ''ENOTFOUND'')), Awake_resumed 0]) =
     [Spawn (JStr ''0.0.0.0'') (JNum 8000)]"
  by code_simp

section \<open>The Close task\<close>

lemma closes_simps [simp]:
  "closes (s\<lparr>loops := ls\<rparr>) = closes s"
  "closes (s\<lparr>started := ts\<rparr>) = closes s"
  "closes (s\<lparr>workQueue := ts\<rparr>) = closes s"
  "closes (s\<lparr>enqueued := ts\<rparr>) = closes s"
  "closes (s\<lparr>isIdle := b\<rparr>) = closes s"
  "closes (s\<lparr>bindState := bs\<rparr>) = closes s"
  "closes (s\<lparr>pumps := hs\<rparr>) = closes s"
  "closes (s\<lparr>handle := ho\<rparr>) = closes s"
  "closes (s\<lparr>listeners := lis\<rparr>) = closes s"
  "closes (log a s) = (if a = Emit EvClose then Suc (closes s) else closes s)"
  "closes (on name fn s) = closes s"
  "closes (once name fn s) = closes s"
  "closes (deliver e s) = (if e = EvClose then Suc (closes s) else closes s)"
  by (simp_all add: closes_def)

lemma Spawn_catch_closes: "Spawn_catch error s = (p, s') \<Longrightarrow> closes s' = closes s"
  unfolding Spawn_catch_def by (drule settled_emit) auto

lemma Close_catch_closes: "Close_catch error s = (p, s') \<Longrightarrow> closes s' = closes s"
  unfolding Close_catch_def by (drule settled_emit) auto

lemma perform_closes: "perform task s = (p, s') \<Longrightarrow> closes s' = closes s"
  by (cases task) (auto simp: healthCheck_def split: option.splits dest: Close_catch_closes)

lemma Send_loop_closes:
  "Send_loop h host port list callback s = (p, s') \<Longrightarrow> closes s' = closes s"
  by (induction h host port list callback s rule: Send_loop.induct) auto

lemma resume_closes: "resume p reply s = Some (p', s') \<Longrightarrow> closes s' = closes s"
  by (induction p reply s rule: resume.induct)
     (auto simp: Let_def emit_not_error split: option.splits
        dest: Send_loop_closes Spawn_catch_closes Close_catch_closes)

lemma drain_closes: "drain i s = (lo, s') \<Longrightarrow> closes s' = closes s"
  by (auto simp: drain_def Let_def split: prod.splits if_splits dest: perform_closes)

lemma awake_closes: "closes (awake s) = closes s"
  by (auto simp: awake_def split: prod.splits option.splits dest: drain_closes)

lemma schedule_closes: "closes (schedule task s) = closes s"
  by (simp add: schedule_def Let_def awake_closes)

lemma Socket_bind_closes: "closes (snd (Socket_bind args s)) = closes s"
  by (simp add: Socket_bind_def Let_def schedule_closes)

lemma Socket_send_closes: "closes (snd (Socket_send buf args s)) = closes s"
  by (cases buf args s rule: Socket_send_cases)
     (simp_all add: schedule_closes Socket_bind_closes)

lemma Socket_close_closes: "closes (Socket_close callback s) = closes s"
  by (simp add: Socket_close_def schedule_closes)

lemma settle_closes: "closes (settle i reply s) = closes s"
  by (auto simp: settle_def split: option.splits dest: resume_closes)

lemma awake_resume_closes: "closes (awake_resume i s) = closes s"
  by (auto simp: awake_resume_def split: Perform.splits Outcome.splits prod.splits option.splits
        dest: drain_closes)

lemma step_closes:
  assumes "\<forall>h. input \<noteq> Datagrams_end h"
  shows "closes (step s input) = closes s"
  using assms
  by (cases input)
     (simp_all add: Socket_bind_closes Socket_send_closes Socket_close_closes settle_closes
        awake_resume_closes listen_message_def emit_not_error)

text \<open>
  Claim C7, as amended. When \<^verbatim>\<open>Close.perform\<close> starts on a socket with no handle, what
  happens depends on whether an \<^verbatim>\<open>"error"\<close> listener is registered. If one is, \<^verbatim>\<open>"error"\<close>
  is emitted with \<^verbatim>\<open>ERR_SOCKET_DGRAM_NOT_RUNNING\<close> and the promise of \<^verbatim>\<open>perform\<close> is
  fulfilled. If none is, \<^verbatim>\<open>emit\<close> throws the error out of the \<^verbatim>\<open>catch\<close>, nothing is emitted,
  and the promise of \<^verbatim>\<open>perform\<close> is rejected with it: the error is thrown to \<^verbatim>\<open>awake\<close>. When
  there is a handle, the field is \<^verbatim>\<open>null\<close> at the \<^verbatim>\<open>await\<close> of \<^verbatim>\<open>handle.close()\<close>, which is
  the one call made; when that promise is fulfilled \<^verbatim>\<open>perform\<close> returns, and when it is
  rejected the same two cases arise. No step of a socket other than the end of the stream
  of datagrams in the message pump emits \<^verbatim>\<open>"close"\<close>: the \<^verbatim>\<open>Close\<close> task never does.
\<close>

theorem close_perform:
  "(handle s = None \<and> has_listener ''error'' s \<longrightarrow>
      perform Close s = (Done Returned, deliver (EvError ERR_SOCKET_DGRAM_NOT_RUNNING) s) \<and>
      trace (snd (perform Close s)) = trace s @ [Emit (EvError ERR_SOCKET_DGRAM_NOT_RUNNING)]) \<and>
   (handle s = None \<and> \<not> has_listener ''error'' s \<longrightarrow>
      perform Close s = (Done (Threw ERR_SOCKET_DGRAM_NOT_RUNNING), s)) \<and>
   (handle s = Some h \<longrightarrow>
      perform Close s = (Close_close, s\<lparr>handle := None, trace := trace s @ [Handle_close h]\<rparr>)) \<and>
   resume Close_close (Fulfilled Void) s = Some (Done Returned, s) \<and>
   (has_listener ''error'' s \<longrightarrow>
      resume Close_close (Rejected error) s = Some (Done Returned, deliver (EvError error) s) \<and>
      trace (deliver (EvError error) s) = trace s @ [Emit (EvError error)]) \<and>
   (\<not> has_listener ''error'' s \<longrightarrow>
      resume Close_close (Rejected error) s = Some (Done (Threw error), s)) \<and>
   ((\<forall>h'. input \<noteq> Datagrams_end h') \<longrightarrow> closes (step s input) = closes s)"
  using step_closes [of input s]
  by (simp add: healthCheck_def Close_catch_def log_def)

theorem close_perform_witness:
  "handle heard_udp4 = None \<and> has_listener ''error'' heard_udp4 \<and>
   perform Close heard_udp4 =
     (Done Returned, deliver (EvError ERR_SOCKET_DGRAM_NOT_RUNNING) heard_udp4) \<and>
   trace (snd (perform Close heard_udp4)) =
     trace heard_udp4 @ [Emit (EvError ERR_SOCKET_DGRAM_NOT_RUNNING)] \<and>
   handle new_udp4 = None \<and> \<not> has_listener ''error'' new_udp4 \<and>
   perform Close new_udp4 = (Done (Threw ERR_SOCKET_DGRAM_NOT_RUNNING), new_udp4) \<and>
   handle bound_socket = Some 1 \<and>
   perform Close bound_socket =
     (Close_close, bound_socket\<lparr>handle := None, trace := trace bound_socket @ [Handle_close 1]\<rparr>) \<and>
   resume Close_close (Rejected (Failure ''closed'')) new_udp4 =
     Some (Done (Threw (Failure ''closed'')), new_udp4) \<and>
   resume Close_close (Rejected (Failure ''closed'')) heard_udp4 =
     Some (Done Returned, deliver (EvError (Failure ''closed'')) heard_udp4) \<and>
   closes (step bound_socket (Call_close Undefined)) = closes bound_socket \<and>
   closes (step (step bound_socket (Call_close Undefined)) (Settled 0 (Fulfilled Void))) =
     closes (step bound_socket (Call_close Undefined))"
proof -
  have h: "handle new_udp4 = None" "handle bound_socket = Some 1" "handle heard_udp4 = None"
    by code_simp+
  have l: "has_listener ''error'' heard_udp4" "\<not> has_listener ''error'' new_udp4"
    by code_simp+
  from close_perform [of heard_udp4 1 "Failure ''closed''" "Call_close Undefined"]
    close_perform [of new_udp4 1 "Failure ''closed''" "Call_close Undefined"]
    close_perform [of bound_socket 1 "Failure ''closed''" "Call_close Undefined"]
    close_perform [of "step bound_socket (Call_close Undefined)" 1 "Failure ''closed''"
      "Settled 0 (Fulfilled Void)"] h l
  show ?thesis by simp
qed

text \<open>
  The claim as it was stated fails on the socket that \<^verbatim>\<open>createSocket("udp4")\<close> returns,
  which has no handle and no \<^verbatim>\<open>"error"\<close> listener. \<^verbatim>\<open>close()\<close> on it starts the \<^verbatim>\<open>Close\<close>
  task, which emits nothing: the promise of its \<^verbatim>\<open>perform\<close> is rejected with
  \<^verbatim>\<open>ERR_SOCKET_DGRAM_NOT_RUNNING\<close>, and the \<^verbatim>\<open>awake\<close> that awaits it is over with \<^verbatim>\<open>isIdle\<close>
  still false.
\<close>

theorem close_unheard_counterexample:
  "handle new_udp4 = None \<and>
   perform Close new_udp4 = (Done (Threw ERR_SOCKET_DGRAM_NOT_RUNNING), new_udp4) \<and>
   trace (run new_udp4 [Call_close Undefined]) = [] \<and>
   loops (run new_udp4 [Call_close Undefined]) =
     [\<lparr>index = 1, current = Done (Threw ERR_SOCKET_DGRAM_NOT_RUNNING)\<rparr>] \<and>
   loops (run new_udp4 [Call_close Undefined, Awake_resumed 0]) = [] \<and>
   \<not> isIdle (run new_udp4 [Call_close Undefined, Awake_resumed 0])"
  by code_simp

section \<open>send of two buffers\<close>

lemma valid_port:
  assumes "1 \<le> port" and "port \<le> 65535"
  shows "(word_of_int port :: 32 word) \<noteq> 0 \<and> \<not> 65535 < (word_of_int port :: 32 word)"
proof -
  have "uint (word_of_int port :: 32 word) = port"
    using assms by (simp add: uint_word_of_int take_bit_int_eq_self)
  then show ?thesis
    using assms by (auto simp: word_less_def)
qed

lemma idle_again:
  assumes "isIdle s" and "workQueue s = []" and "loops s = []"
  shows "s\<lparr>workQueue := [], isIdle := True, loops := []\<rparr> = s"
  using assms by (cases s) simp

text \<open>
  Claim C8, as amended. Take a socket with a handle \<open>h\<close>, in any run, and call
  \<^verbatim>\<open>send(["a", "b"], port, address, callback)\<close> with a port from 1 to 65535 and an address that
  is not empty. On an idle socket the call starts the \<^verbatim>\<open>Send\<close>, which calls the resolver;
  when the resolver gives \<open>host\<close> as its first address the first payload is sent to
  \<open>host\<close> and the port, and the task awaits that with the second buffer still to send;
  when the handle has fulfilled it the second payload is sent; when that is fulfilled the
  timer of 20 ms is set; when it has fired the callback is called with \<^verbatim>\<open>null\<close> and
  \<^verbatim>\<open>perform\<close> returns; and \<^verbatim>\<open>awake\<close>, resumed, leaves the socket idle as before, with these
  five calls made and no other. On a socket that is not idle the call adds the \<^verbatim>\<open>Send\<close> to
  the queue and makes no call. The handle is read when the task is performed: performed
  on a socket with a handle, the task makes the five calls with that handle; performed on
  a socket with none, as after a \<^verbatim>\<open>close()\<close> that was queued ahead of it, it calls the
  resolver and nothing else, and the callback is not called.
\<close>

theorem send_two_buffers:
  assumes "s = run (Socket_new type listener) inputs"
    and "handle s = Some h"
    and "1 \<le> port" and "port \<le> 65535" and "address \<noteq> []"
    and "task = Send [Buffer_from a, Buffer_from b] (word_of_int port) address (Some callback)"
    and "call = Call_send (Arr [Prim (JStr a), Prim (JStr b)])
           [JNum port, JStr address, JFun callback]"
    and "resolved = Settled 0 (Fulfilled (Addresses (host # hosts)))"
    and "fulfilled = Settled 0 (Fulfilled Void)"
  shows "(isIdle s \<longrightarrow>
        trace (run s [call]) = trace s @ [Dns_resolve (JStr address)] \<and>
        loops (run s [call]) =
          [\<lparr>index = 1, current = Send_resolve (Some h) [Buffer_from a, Buffer_from b]
             (word_of_int port) (Some callback)\<rparr>] \<and>
        trace (run s [call, resolved]) =
          trace s @ [Dns_resolve (JStr address), Handle_send h (Some host) (word_of_int port) a] \<and>
        loops (run s [call, resolved]) =
          [\<lparr>index = 1, current = Send_send h (Some host) (word_of_int port) [Buffer_from b]
             (Some callback)\<rparr>] \<and>
        trace (run s [call, resolved, fulfilled]) =
          trace s @ [Dns_resolve (JStr address), Handle_send h (Some host) (word_of_int port) a,
            Handle_send h (Some host) (word_of_int port) b] \<and>
        loops (run s [call, resolved, fulfilled]) =
          [\<lparr>index = 1, current = Send_send h (Some host) (word_of_int port) []
             (Some callback)\<rparr>] \<and>
        trace (run s [call, resolved, fulfilled, fulfilled]) =
          trace s @ [Dns_resolve (JStr address), Handle_send h (Some host) (word_of_int port) a,
            Handle_send h (Some host) (word_of_int port) b, Set_timeout 20] \<and>
        loops (run s [call, resolved, fulfilled, fulfilled]) =
          [\<lparr>index = 1, current = Send_timeout callback\<rparr>] \<and>
        trace (run s [call, resolved, fulfilled, fulfilled, fulfilled]) =
          trace s @ [Dns_resolve (JStr address), Handle_send h (Some host) (word_of_int port) a,
            Handle_send h (Some host) (word_of_int port) b, Set_timeout 20,
            Callback callback None] \<and>
        loops (run s [call, resolved, fulfilled, fulfilled, fulfilled]) =
          [\<lparr>index = 1, current = Done Returned\<rparr>] \<and>
        run s [call, resolved, fulfilled, fulfilled, fulfilled, Awake_resumed 0] =
          s\<lparr>trace := trace s @
               [Dns_resolve (JStr address), Handle_send h (Some host) (word_of_int port) a,
                Handle_send h (Some host) (word_of_int port) b, Set_timeout 20,
                Callback callback None],
             enqueued := enqueued s @ [task], started := started s @ [task]\<rparr>) \<and>
     (\<not> isIdle s \<longrightarrow>
        run s [call] =
          s\<lparr>workQueue := workQueue s @ [task], enqueued := enqueued s @ [task]\<rparr>) \<and>
     (\<forall>s1 h1. handle s1 = Some h1 \<longrightarrow>
        resumes (perform task s1)
          [Fulfilled (Addresses (host # hosts)), Fulfilled Void, Fulfilled Void, Fulfilled Void] =
          Some (Done Returned,
            s1\<lparr>trace := trace s1 @
              [Dns_resolve (JStr address), Handle_send h1 (Some host) (word_of_int port) a,
               Handle_send h1 (Some host) (word_of_int port) b, Set_timeout 20,
               Callback callback None]\<rparr>)) \<and>
     (\<forall>s1. handle s1 = None \<longrightarrow>
        resumes (perform task s1) [Fulfilled (Addresses (host # hosts))] =
          Some (Done Returned, s1\<lparr>trace := trace s1 @ [Dns_resolve (JStr address)]\<rparr>))"
proof -
  have inv: "sched_inv s" "bind_inv s"
    using reachable_inv [of type listener inputs] assms(1) by simp_all
  have bound: "bindState s \<noteq> BIND_STATE_UNBOUND"
    using inv(2) assms(2) by (auto simp: bind_inv_def)
  have a: "send_arguments (Arr [Prim (JStr a), Prim (JStr b)])
      [JNum port, JStr address, JFun callback] =
      Inr ([Buffer_from a, Buffer_from b], JNum port, JStr address, JFun callback)"
    by (simp add: send_arguments_def sliced_def arg_def)
  have send: "step s call = schedule task s"
    using valid_port [OF assms(3,4)] bound assms(5,6,7)
    by (simp add: Socket_send_sent [OF a])
  have buf: "buffer (Buffer_from a) = a" "buffer (Buffer_from b) = b"
    by (simp_all add: Buffer_from_def)
  let ?list = "[Buffer_from a, Buffer_from b]"
  let ?port = "word_of_int port :: 32 word"
  let ?c1 = "Dns_resolve (JStr address)"
  let ?c2 = "Handle_send h (Some host) ?port a"
  let ?c3 = "Handle_send h (Some host) ?port b"
  have idle: "trace (run s [call]) = trace s @ [?c1] \<and>
        loops (run s [call]) =
          [\<lparr>index = 1, current = Send_resolve (Some h) ?list ?port (Some callback)\<rparr>] \<and>
        trace (run s [call, resolved]) = trace s @ [?c1, ?c2] \<and>
        loops (run s [call, resolved]) =
          [\<lparr>index = 1, current = Send_send h (Some host) ?port [Buffer_from b] (Some callback)\<rparr>] \<and>
        trace (run s [call, resolved, fulfilled]) = trace s @ [?c1, ?c2, ?c3] \<and>
        loops (run s [call, resolved, fulfilled]) =
          [\<lparr>index = 1, current = Send_send h (Some host) ?port [] (Some callback)\<rparr>] \<and>
        trace (run s [call, resolved, fulfilled, fulfilled]) =
          trace s @ [?c1, ?c2, ?c3, Set_timeout 20] \<and>
        loops (run s [call, resolved, fulfilled, fulfilled]) =
          [\<lparr>index = 1, current = Send_timeout callback\<rparr>] \<and>
        trace (run s [call, resolved, fulfilled, fulfilled, fulfilled]) =
          trace s @ [?c1, ?c2, ?c3, Set_timeout 20, Callback callback None] \<and>
        loops (run s [call, resolved, fulfilled, fulfilled, fulfilled]) =
          [\<lparr>index = 1, current = Done Returned\<rparr>] \<and>
        run s [call, resolved, fulfilled, fulfilled, fulfilled, Awake_resumed 0] =
          s\<lparr>trace := trace s @ [?c1, ?c2, ?c3, Set_timeout 20, Callback callback None],
             enqueued := enqueued s @ [task], started := started s @ [task]\<rparr>"
    if "isIdle s"
  proof -
    have e: "loops s = []" "workQueue s = []"
      using inv(1) that by (simp_all add: sched_inv_def)
    define t0 where "t0 = s\<lparr>workQueue := [task], enqueued := enqueued s @ [task],
        isIdle := False, started := started s @ [task]\<rparr>"
    define t1 where "t1 = t0\<lparr>trace := trace s @ [?c1],
        loops := [\<lparr>index = 1, current = Send_resolve (Some h) ?list ?port (Some callback)\<rparr>]\<rparr>"
    define t2 where "t2 = t0\<lparr>trace := trace s @ [?c1, ?c2],
        loops := [\<lparr>index = 1,
          current = Send_send h (Some host) ?port [Buffer_from b] (Some callback)\<rparr>]\<rparr>"
    define t3 where "t3 = t0\<lparr>trace := trace s @ [?c1, ?c2, ?c3],
        loops := [\<lparr>index = 1, current = Send_send h (Some host) ?port [] (Some callback)\<rparr>]\<rparr>"
    define t4 where "t4 = t0\<lparr>trace := trace s @ [?c1, ?c2, ?c3, Set_timeout 20],
        loops := [\<lparr>index = 1, current = Send_timeout callback\<rparr>]\<rparr>"
    define t5 where "t5 = t0\<lparr>trace := trace s @ [?c1, ?c2, ?c3, Set_timeout 20, Callback callback None],
        loops := [\<lparr>index = 1, current = Done Returned\<rparr>]\<rparr>"
    have 1: "step s call = t1"
      unfolding send schedule_idle_state [OF that e(2,1)]
      using assms(2,6) by (simp add: t1_def t0_def log_def)
    have 2: "step t1 resolved = t2"
      by (simp add: assms(8) t1_def t2_def t0_def settle_def log_def buf Let_def)
    have 3: "step t2 fulfilled = t3"
      by (simp add: assms(9) t2_def t3_def t0_def settle_def log_def buf)
    have 4: "step t3 fulfilled = t4"
      by (simp add: assms(9) t3_def t4_def t0_def settle_def log_def)
    have 5: "step t4 fulfilled = t5"
      by (simp add: assms(9) t4_def t5_def t0_def settle_def log_def)
    have "step t5 (Awake_resumed 0) =
        (s\<lparr>workQueue := [], isIdle := True, loops := []\<rparr>)
          \<lparr>trace := trace s @ [?c1, ?c2, ?c3, Set_timeout 20, Callback callback None],
           enqueued := enqueued s @ [task], started := started s @ [task]\<rparr>"
      by (simp add: t5_def t0_def awake_resume_def drain_def)
    then have 6: "step t5 (Awake_resumed 0) =
        s\<lparr>trace := trace s @ [?c1, ?c2, ?c3, Set_timeout 20, Callback callback None],
           enqueued := enqueued s @ [task], started := started s @ [task]\<rparr>"
      unfolding idle_again [OF that e(2,1)] .
    have obs: "trace t1 = trace s @ [?c1]"
      "loops t1 = [\<lparr>index = 1, current = Send_resolve (Some h) ?list ?port (Some callback)\<rparr>]"
      "trace t2 = trace s @ [?c1, ?c2]"
      "loops t2 = [\<lparr>index = 1,
          current = Send_send h (Some host) ?port [Buffer_from b] (Some callback)\<rparr>]"
      "trace t3 = trace s @ [?c1, ?c2, ?c3]"
      "loops t3 = [\<lparr>index = 1, current = Send_send h (Some host) ?port [] (Some callback)\<rparr>]"
      "trace t4 = trace s @ [?c1, ?c2, ?c3, Set_timeout 20]"
      "loops t4 = [\<lparr>index = 1, current = Send_timeout callback\<rparr>]"
      "trace t5 = trace s @ [?c1, ?c2, ?c3, Set_timeout 20, Callback callback None]"
      "loops t5 = [\<lparr>index = 1, current = Done Returned\<rparr>]"
      by (simp_all add: t1_def t2_def t3_def t4_def t5_def)
    show ?thesis
      unfolding run_def foldl_Cons foldl_Nil 1 2 3 4 5 6 obs by simp
  qed
  have busy: "run s [call] =
      s\<lparr>workQueue := workQueue s @ [task], enqueued := enqueued s @ [task]\<rparr>"
    if "\<not> isIdle s"
    using that by (simp add: run_def send schedule_busy)
  have live: "resumes (perform task s1)
        [Fulfilled (Addresses (host # hosts)), Fulfilled Void, Fulfilled Void, Fulfilled Void] =
        Some (Done Returned,
          s1\<lparr>trace := trace s1 @
            [?c1, Handle_send h1 (Some host) ?port a, Handle_send h1 (Some host) ?port b,
             Set_timeout 20, Callback callback None]\<rparr>)"
    if "handle s1 = Some h1" for s1 h1
    using that by (simp add: assms(6) log_def buf Let_def)
  have gone: "resumes (perform task s1) [Fulfilled (Addresses (host # hosts))] =
        Some (Done Returned, s1\<lparr>trace := trace s1 @ [?c1]\<rparr>)"
    if "handle s1 = None" for s1
    using that by (simp add: assms(6) log_def Let_def)
  show ?thesis
    using idle busy live gone by blast
qed

theorem send_two_buffers_witness:
  "bound_socket = run (Socket_new (JStr ''udp4'') Undefined)
     [Call_bind [JNum 8000], Settled 0 (Fulfilled (Addresses [''0.0.0.0''])),
      Settled 0 (Fulfilled (Created 1)), Awake_resumed 0] \<and>
   handle bound_socket = Some 1 \<and> isIdle bound_socket \<and>
   (1 :: int) \<le> 9000 \<and> (9000 :: int) \<le> 65535 \<and> ''example.org'' \<noteq> [] \<and>
   run bound_socket
     [Call_send (Arr [Prim (JStr ''a''), Prim (JStr ''b'')])
        [JNum 9000, JStr ''example.org'', JFun 7],
      Settled 0 (Fulfilled (Addresses [''93.184.216.34''])),
      Settled 0 (Fulfilled Void), Settled 0 (Fulfilled Void), Settled 0 (Fulfilled Void),
      Awake_resumed 0] =
     bound_socket\<lparr>trace := trace bound_socket @
         [Dns_resolve (JStr ''example.org''),
          Handle_send 1 (Some ''93.184.216.34'') 9000 ''a'',
          Handle_send 1 (Some ''93.184.216.34'') 9000 ''b'',
          Set_timeout 20,
          Callback 7 None],
       enqueued := enqueued bound_socket @
         [Send [Buffer_from ''a'', Buffer_from ''b''] 9000 ''example.org'' (Some 7)],
       started := started bound_socket @
         [Send [Buffer_from ''a'', Buffer_from ''b''] 9000 ''example.org'' (Some 7)]\<rparr> \<and>
   closing_socket = run (Socket_new (JStr ''udp4'') Undefined)
     [Call_bind [JNum 8000], Settled 0 (Fulfilled (Addresses [''0.0.0.0''])),
      Settled 0 (Fulfilled (Created 1)), Awake_resumed 0,
      Call_send (Prim (JStr ''x'')) [JNum 9000], Call_close Undefined] \<and>
   handle closing_socket = Some 1 \<and> \<not> isIdle closing_socket \<and>
   run closing_socket
     [Call_send (Arr [Prim (JStr ''a''), Prim (JStr ''b'')])
        [JNum 9000, JStr ''example.org'', JFun 7]] =
     closing_socket\<lparr>workQueue := workQueue closing_socket @
         [Send [Buffer_from ''a'', Buffer_from ''b''] 9000 ''example.org'' (Some 7)],
       enqueued := enqueued closing_socket @
         [Send [Buffer_from ''a'', Buffer_from ''b''] 9000 ''example.org'' (Some 7)]\<rparr> \<and>
   resumes (perform (Send [Buffer_from ''a'', Buffer_from ''b''] 9000 ''example.org'' (Some 7))
       closing_socket)
     [Fulfilled (Addresses [''93.184.216.34'']), Fulfilled Void, Fulfilled Void, Fulfilled Void] =
     Some (Done Returned,
       closing_socket\<lparr>trace := trace closing_socket @
         [Dns_resolve (JStr ''example.org''),
          Handle_send 1 (Some ''93.184.216.34'') 9000 ''a'',
          Handle_send 1 (Some ''93.184.216.34'') 9000 ''b'',
          Set_timeout 20,
          Callback 7 None]\<rparr>) \<and>
   handle closed_socket = None \<and>
   resumes (perform (Send [Buffer_from ''a'', Buffer_from ''b''] 9000 ''example.org'' (Some 7))
       closed_socket)
     [Fulfilled (Addresses [''93.184.216.34''])] =
     Some (Done Returned,
       closed_socket\<lparr>trace := trace closed_socket @ [Dns_resolve (JStr ''example.org'')]\<rparr>)"
proof -
  have r: "bound_socket = run (Socket_new (JStr ''udp4'') Undefined)
     [Call_bind [JNum 8000], Settled 0 (Fulfilled (Addresses [''0.0.0.0''])),
      Settled 0 (Fulfilled (Created 1)), Awake_resumed 0]"
    by (simp add: bound_socket_def new_udp4_def)
  have c: "closing_socket = run (Socket_new (JStr ''udp4'') Undefined)
     [Call_bind [JNum 8000], Settled 0 (Fulfilled (Addresses [''0.0.0.0''])),
      Settled 0 (Fulfilled (Created 1)), Awake_resumed 0,
      Call_send (Prim (JStr ''x'')) [JNum 9000], Call_close Undefined]"
    by (simp add: closing_socket_def bound_socket_def new_udp4_def run_def)
  have h: "handle bound_socket = Some 1" "isIdle bound_socket"
    "handle closing_socket = Some 1" "\<not> isIdle closing_socket"
    "handle closed_socket = None"
    by code_simp+
  have p: "(1 :: int) \<le> 9000" "(9000 :: int) \<le> 65535" "''example.org'' \<noteq> []"
    by simp_all
  note idle = send_two_buffers [OF r h(1) p refl refl refl refl,
    of "''a''" "''b''" 7 "''93.184.216.34''" "[]"]
  note busy = send_two_buffers [OF c h(3) p refl refl refl refl,
    of "''a''" "''b''" 7 "''93.184.216.34''" "[]"]
  have "run bound_socket
     [Call_send (Arr [Prim (JStr ''a''), Prim (JStr ''b'')])
        [JNum 9000, JStr ''example.org'', JFun 7],
      Settled 0 (Fulfilled (Addresses [''93.184.216.34''])),
      Settled 0 (Fulfilled Void), Settled 0 (Fulfilled Void), Settled 0 (Fulfilled Void),
      Awake_resumed 0] =
     bound_socket\<lparr>trace := trace bound_socket @
         [Dns_resolve (JStr ''example.org''),
          Handle_send 1 (Some ''93.184.216.34'') (word_of_int 9000) ''a'',
          Handle_send 1 (Some ''93.184.216.34'') (word_of_int 9000) ''b'',
          Set_timeout 20,
          Callback 7 None],
       enqueued := enqueued bound_socket @
         [Send [Buffer_from ''a'', Buffer_from ''b''] (word_of_int 9000) ''example.org'' (Some 7)],
       started := started bound_socket @
         [Send [Buffer_from ''a'', Buffer_from ''b''] (word_of_int 9000) ''example.org'' (Some 7)]\<rparr>"
    using idle h(2) by blast
  moreover have "run closing_socket
     [Call_send (Arr [Prim (JStr ''a''), Prim (JStr ''b'')])
        [JNum 9000, JStr ''example.org'', JFun 7]] =
     closing_socket\<lparr>workQueue := workQueue closing_socket @
         [Send [Buffer_from ''a'', Buffer_from ''b''] (word_of_int 9000) ''example.org'' (Some 7)],
       enqueued := enqueued closing_socket @
         [Send [Buffer_from ''a'', Buffer_from ''b''] (word_of_int 9000) ''example.org'' (Some 7)]\<rparr>"
    using busy h(4) by blast
  moreover have "resumes (perform
       (Send [Buffer_from ''a'', Buffer_from ''b''] (word_of_int 9000) ''example.org'' (Some 7))
       closing_socket)
     [Fulfilled (Addresses [''93.184.216.34'']), Fulfilled Void, Fulfilled Void, Fulfilled Void] =
     Some (Done Returned,
       closing_socket\<lparr>trace := trace closing_socket @
         [Dns_resolve (JStr ''example.org''),
          Handle_send 1 (Some ''93.184.216.34'') (word_of_int 9000) ''a'',
          Handle_send 1 (Some ''93.184.216.34'') (word_of_int 9000) ''b'',
          Set_timeout 20,
          Callback 7 None]\<rparr>)"
    using busy h(3) by blast
  moreover have "resumes (perform
       (Send [Buffer_from ''a'', Buffer_from ''b''] (word_of_int 9000) ''example.org'' (Some 7))
       closed_socket)
     [Fulfilled (Addresses [''93.184.216.34''])] =
     Some (Done Returned,
       closed_socket\<lparr>trace := trace closed_socket @ [Dns_resolve (JStr ''example.org'')]\<rparr>)"
    using busy h(5) by blast
  ultimately show ?thesis
    using r c h by simp
qed

text \<open>
  The claim as it was stated fails. Take the bound socket, call \<^verbatim>\<open>send("x", 9000)\<close> and then
  \<^verbatim>\<open>close()\<close>: the \<^verbatim>\<open>Send\<close> is being performed, the \<^verbatim>\<open>Close\<close> waits in the queue, and the
  socket is bound and has its handle. Now call
  \<^verbatim>\<open>send(["a", "b"], 9000, "example.org", callback)\<close>, which throws nothing, and let every
  promise awaited be fulfilled. The \<^verbatim>\<open>Close\<close> is performed before the second \<^verbatim>\<open>Send\<close> and
  clears the handle, so the second \<^verbatim>\<open>Send\<close> calls the resolver and returns: when the socket
  is idle again, neither payload was transmitted and the callback was not called.
\<close>

theorem send_after_close_counterexample:
  "bindState closing_socket = BIND_STATE_BINDING \<and> handle closing_socket = Some 1 \<and>
   fst (Socket_send (Arr [Prim (JStr ''a''), Prim (JStr ''b'')])
     [JNum 9000, JStr ''example.org'', JFun 7] closing_socket) = None \<and>
   isIdle raced_socket \<and> loops raced_socket = [] \<and>
   started raced_socket =
     [Spawn (JStr ''0.0.0.0'') (JNum 8000),
      Send [Buffer_from ''x''] 9000 ''127.0.0.1'' None,
      Close,
      Send [Buffer_from ''a'', Buffer_from ''b''] 9000 ''example.org'' (Some 7)] \<and>
   trace raced_socket =
     trace bound_socket @
       [Dns_resolve (JStr ''127.0.0.1''),
        Handle_send 1 (Some ''127.0.0.1'') 9000 ''x'',
        Handle_close 1,
        Dns_resolve (JStr ''example.org'')]"
  by code_simp

section \<open>A Send without a handle\<close>

text \<open>
  A \<^verbatim>\<open>Send\<close> that is performed without a handle and whose address resolves makes no call
  after that of the resolver, and returns.
\<close>

lemma send_without_handle:
  assumes "handle s = None"
  shows "resumes (perform (Send list port address callback) s) [Fulfilled (Addresses addresses)] =
     Some (Done Returned, s\<lparr>trace := trace s @ [Dns_resolve (JStr address)]\<rparr>)"
  using assms by (simp add: log_def)

text \<open>
  Claim C4 asks that a \<^verbatim>\<open>Send\<close> performed without a handle raises nothing. The \<^verbatim>\<open>await\<close> of
  \<^verbatim>\<open>socket.dns.resolve\<close> in \<^verbatim>\<open>Send.perform\<close> stands before the \<^verbatim>\<open>try\<close>, unlike the one in
  \<^verbatim>\<open>Spawn.perform\<close>. On the closed socket, which has no handle, the \<^verbatim>\<open>Send\<close> of a \<^verbatim>\<open>send\<close>
  to an address that the resolver rejects is started, makes the call of the resolver and
  no other, and the promise of its \<^verbatim>\<open>perform\<close> is rejected with the resolver's error. The
  \<^verbatim>\<open>await\<close> in \<^verbatim>\<open>awake\<close> throws it: \<^verbatim>\<open>awake\<close> is over with \<^verbatim>\<open>isIdle\<close> still false, and a
  \<^verbatim>\<open>close()\<close> called after that is added to the queue and never started.
\<close>

theorem send_without_handle_raises:
  "handle closed_socket = None \<and>
   started stuck_socket =
     started closed_socket @ [Send [Buffer_from ''x''] 8000 ''unresolvable.invalid'' (Some 1)] \<and>
   trace stuck_socket = trace closed_socket @ [Dns_resolve (JStr ''unresolvable.invalid'')] \<and>
   loops stuck_socket = [\<lparr>index = 1, current = Done (Threw (Failure ''ENOTFOUND''))\<rparr>] \<and>
   loops (run stuck_socket [Awake_resumed 0]) = [] \<and>
   \<not> isIdle (run stuck_socket [Awake_resumed 0]) \<and>
   workQueue (run stuck_socket [Awake_resumed 0, Call_close Undefined]) =
     [Send [Buffer_from ''x''] 8000 ''unresolvable.invalid'' (Some 1), Close] \<and>
   started (run stuck_socket [Awake_resumed 0, Call_close Undefined]) = started stuck_socket \<and>
   loops (run stuck_socket [Awake_resumed 0, Call_close Undefined]) = []"
  by code_simp

end
